theory Spec2Isabelle
  imports Main "HOL-Library.Option_ord"
begin

section \<open>The wiki data model of kitsune/wiki/models.py\<close>

text \<open>
  The two Django models \<open>Document\<close> and \<open>Revision\<close> are records. A primary key is
  \<open>nat option\<close>: \<open>None\<close> on an instance that was never saved. A foreign key is the key of
  the row it points to (Django's \<open>current_revision_id\<close>, \<open>based_on_id\<close>, ...), and reading the
  related object is a lookup in the table, which raises \<open>DoesNotExist\<close> when the row is gone.
  Users are their keys. A date is a number; only whether \<open>reviewed\<close> is null matters here.

  A document instance carries, besides its columns, the two attributes \<open>old_title\<close> and
  \<open>old_slug\<close> that \<open>Document.__setattr__\<close> sets and deletes; \<open>None\<close> is "the instance has no
  such attribute". The columns that no modelled method reads or writes (allow_discussion,
  needs_change, the product and topic relations; summary, keywords, comment and the
  readied-for-localization stamps of a revision) are left out.
\<close>

type_synonym user = nat

record document =
  doc_id :: "nat option"
  title :: string
  slug :: string
  is_template :: bool
  is_localizable :: bool
  doc_locale :: string
  current_revision :: "nat option"
  latest_localizable_revision :: "nat option"
  parent :: "nat option"
  html :: string
  category :: int
  is_archived :: bool
  old_title :: "string option"
  old_slug :: "string option"

record revision =
  rev_id :: "nat option"
  document :: "nat option"
  content :: string
  reviewed :: "nat option"
  significance :: "int option"
  reviewer :: "user option"
  creator :: user
  is_approved :: bool
  based_on :: "nat option"
  is_ready_for_localization :: bool

text \<open>
  The database: the two tables in insertion order and the many-to-many table behind
  \<open>Document.contributors\<close>.
\<close>

record db =
  documents :: "document list"
  revisions :: "revision list"
  contributors :: "(nat \<times> user) set"

datatype error =
  SlugCollision | TitleCollision | ValidationError | ProgrammingError
  | DoesNotExist | ValueError | AssertionError

text \<open>
  A template of \<open>_attr_for_redirect\<close> is a Python format string with the tokens
  \<open>%(old)s\<close> and \<open>%(number)d\<close>; it is kept as the list of its pieces.
\<close>

datatype tok = Lit string | Old | Number

type_synonym template = "tok list"

text \<open>
  What models.py imports from the settings, from kitsune.wiki and kitsune.wiki.config and
  from the parser is a parameter of every function: the values are not in this file.
  \<open>REDIRECT_CONTENT\<close> is a format string with one \<open>%s\<close>: the text before it and the text
  after it. \<open>wiki_to_html\<close> takes the markup, the locale and the document's key.
\<close>

record config =
  WIKI_DEFAULT_LANGUAGE :: string
  CATEGORIES :: "(int \<times> string) list"
  TEMPLATE_TITLE_PREFIX :: string
  TYPO_SIGNIFICANCE :: int
  MEDIUM_SIGNIFICANCE :: int
  MAJOR_SIGNIFICANCE :: int
  REDIRECT_CONTENT :: "string \<times> string"
  REDIRECT_TITLE :: template
  REDIRECT_SLUG :: template
  wiki_to_html :: "string \<Rightarrow> string \<Rightarrow> nat option \<Rightarrow> string"

subsection \<open>Python truth values and the ORM's queries\<close>

text \<open>\<open>if self.id:\<close> on an integer key: \<open>None\<close> and 0 are false.\<close>

definition truthy :: "nat option \<Rightarrow> bool" where
  "truthy k = (case k of None \<Rightarrow> False | Some n \<Rightarrow> n \<noteq> 0)"

text \<open>Reading a related object: \<open>objects.get(pk=k)\<close>.\<close>

definition get_document :: "db \<Rightarrow> nat \<Rightarrow> error + document" where
  "get_document s k =
     (case find (\<lambda>x. doc_id x = Some k) (documents s) of
        None \<Rightarrow> Inl DoesNotExist
      | Some x \<Rightarrow> Inr x)"

definition get_revision :: "db \<Rightarrow> nat \<Rightarrow> error + revision" where
  "get_revision s k =
     (case find (\<lambda>x. rev_id x = Some k) (revisions s) of
        None \<Rightarrow> Inl DoesNotExist
      | Some x \<Rightarrow> Inr x)"

text \<open>\<open>doc.revisions\<close>: the revisions whose \<open>document\<close> is this document.\<close>

definition revisions_of :: "db \<Rightarrow> nat option \<Rightarrow> revision list" where
  "revisions_of s k = (case k of None \<Rightarrow> [] | Some n \<Rightarrow> filter (\<lambda>r. document r = Some n) (revisions s))"

text \<open>\<open>doc.translations\<close>: the documents whose \<open>parent\<close> is this document.\<close>

definition translations_of :: "db \<Rightarrow> nat option \<Rightarrow> document list" where
  "translations_of s k = (case k of None \<Rightarrow> [] | Some n \<Rightarrow> filter (\<lambda>x. parent x = Some n) (documents s))"

text \<open>
  \<open>latest(queryset)\<close> of \<open>localizable_or_latest_revision\<close>, which is
  \<open>queryset.order_by('-id')[0:1]\<close>: the row of largest key, \<open>None\<close> on an empty queryset.
\<close>

fun latest :: "revision list \<Rightarrow> revision option" where
  "latest [] = None"
| "latest (r # rs) =
     (case latest rs of
        None \<Rightarrow> Some r
      | Some m \<Rightarrow> if rev_id m < rev_id r then Some r else Some m)"

text \<open>\<open>Q(is_approved=False, reviewed__isnull=False)\<close>.\<close>

definition rejected :: "revision \<Rightarrow> bool" where
  "rejected r = (\<not> is_approved r \<and> reviewed r \<noteq> None)"

text \<open>\<open>a or b\<close> on objects that are either \<open>None\<close> or true.\<close>

definition or_else :: "'a option \<Rightarrow> 'a option \<Rightarrow> 'a option" where
  "or_else a b = (case a of None \<Rightarrow> b | Some x \<Rightarrow> Some x)"

section \<open>Document: queries\<close>

text \<open>\<open>Document.localizable_or_latest_revision\<close> (lines 433-464).\<close>

definition localizable_or_latest_revision :: "db \<Rightarrow> document \<Rightarrow> bool \<Rightarrow> error + revision option" where
  "localizable_or_latest_revision s d include_rejected =
     (let fallback =
            or_else (latest (filter is_approved (revisions_of s (doc_id d))))
              (or_else (latest (filter (\<lambda>r. \<not> rejected r) (revisions_of s (doc_id d))))
                 (if include_rejected then latest (revisions_of s (doc_id d)) else None))
      in case latest_localizable_revision d of
           None \<Rightarrow> Inr fallback
         | Some k \<Rightarrow>
             (case get_revision s k of
                Inl e \<Rightarrow> Inl e
              | Inr rv \<Rightarrow> if \<not> is_localizable d then Inr fallback else Inr (Some rv)))"

text \<open>
  \<open>Document.is_outdated\<close> (lines 466-486). \<open>based_on_id\<close> is tested as a Python integer, so
  a key 0 counts as unset. \<open>significance__gte=level\<close> never matches a null significance.
\<close>

definition is_outdated :: "db \<Rightarrow> document \<Rightarrow> int \<Rightarrow> error + bool" where
  "is_outdated s d level =
     (case parent d of
        None \<Rightarrow> Inr False
      | Some p \<Rightarrow>
          (case get_document s p of
             Inl e \<Rightarrow> Inl e
           | Inr par \<Rightarrow>
               (case current_revision d of
                  None \<Rightarrow> Inr False
                | Some c \<Rightarrow>
                    (case get_revision s c of
                       Inl e \<Rightarrow> Inl e
                     | Inr cur \<Rightarrow>
                         let based_on_id = based_on cur;
                             more_filters = (\<lambda>r. if truthy based_on_id then based_on_id < rev_id r else True)
                         in Inr (\<exists>r \<in> set (revisions_of s (doc_id par)).
                                   is_approved r \<and> is_ready_for_localization r \<and>
                                   Some level \<le> significance r \<and> more_filters r)))))"

text \<open>\<open>Document.is_majorly_outdated\<close> (lines 488-496).\<close>

definition is_majorly_outdated :: "config \<Rightarrow> db \<Rightarrow> document \<Rightarrow> error + bool" where
  "is_majorly_outdated cfg s d = is_outdated s d (MAJOR_SIGNIFICANCE cfg)"

section \<open>Document: rename tracking, validation and redirect names\<close>

text \<open>The two attributes that \<open>__setattr__\<close> traps and that collide: 'title' and 'slug'.\<close>

datatype attr = Title | Slug

fun getattr :: "document \<Rightarrow> attr \<Rightarrow> string" where
  "getattr d Title = title d"
| "getattr d Slug = slug d"

fun set_attr :: "document \<Rightarrow> attr \<Rightarrow> string \<Rightarrow> document" where
  "set_attr d Title v = d\<lparr>title := v\<rparr>"
| "set_attr d Slug v = d\<lparr>slug := v\<rparr>"

text \<open>\<open>getattr(self, 'old_' + attr)\<close>; \<open>None\<close> when \<open>hasattr\<close> is false.\<close>

fun old_attr :: "document \<Rightarrow> attr \<Rightarrow> string option" where
  "old_attr d Title = old_title d"
| "old_attr d Slug = old_slug d"

fun set_old_attr :: "document \<Rightarrow> attr \<Rightarrow> string option \<Rightarrow> document" where
  "set_old_attr d Title v = d\<lparr>old_title := v\<rparr>"
| "set_old_attr d Slug v = d\<lparr>old_slug := v\<rparr>"

text \<open>
  \<open>unicode.lower\<close> (line 299), character by character. A character of a title or slug is
  its code point, and the type \<open>char\<close> has the code points below 256. The ones with a
  lowercase mapping are the capital letters: U+0041 to U+005A (A to Z) and U+00C0 to
  U+00DE apart from the multiplication sign U+00D7 (the accented capitals of Latin-1).
  Each moves up by 32 to its small letter; every other character stays.
\<close>

definition lower_char :: "char \<Rightarrow> char" where
  "lower_char c =
     (let n = (of_char c :: nat) in
      if (65 \<le> n \<and> n \<le> 90) \<or> (192 \<le> n \<and> n \<le> 222 \<and> n \<noteq> 215)
      then char_of (n + 32)
      else c)"

definition lower :: "string \<Rightarrow> string" where
  "lower s = map lower_char s"

text \<open>
  \<open>Document.__setattr__\<close> (lines 289-305) for the names 'slug' and 'title' on an instance
  whose fields are all set (\<open>hasattr(self, name)\<close> holds once the constructor is through).
  Any other name is a plain field update.
\<close>

definition Document_setattr :: "document \<Rightarrow> attr \<Rightarrow> string \<Rightarrow> document" where
  "Document_setattr d name v =
     (let d1 =
        (if truthy (doc_id d) then
           (case old_attr d name of
              None \<Rightarrow>
                if lower (getattr d name) \<noteq> lower v
                then set_old_attr d name (Some (getattr d name))
                else d
            | Some old \<Rightarrow>
                if v = old then set_old_attr d name None else d)
         else d)
      in set_attr d1 name v)"

text \<open>\<open>Document._collides\<close> (lines 141-145).\<close>

definition collides :: "db \<Rightarrow> document \<Rightarrow> attr \<Rightarrow> string \<Rightarrow> bool" where
  "collides s d a v = (\<exists>x \<in> set (documents s). doc_locale x = doc_locale d \<and> getattr x a = v)"

text \<open>\<open>Document._raise_if_collides\<close> (lines 147-152).\<close>

definition raise_if_collides :: "db \<Rightarrow> document \<Rightarrow> attr \<Rightarrow> error \<Rightarrow> error + unit" where
  "raise_if_collides s d a exception =
     (if doc_id d = None \<or> old_attr d a \<noteq> None
      then (if collides s d a (getattr d a) then Inl exception else Inr ())
      else Inr ())"

text \<open>Reading \<open>self.parent\<close>, \<open>self.current_revision\<close>, \<open>self.latest_localizable_revision\<close>.\<close>

definition get_parent :: "db \<Rightarrow> document \<Rightarrow> error + document option" where
  "get_parent s d =
     (case parent d of
        None \<Rightarrow> Inr None
      | Some p \<Rightarrow> (case get_document s p of Inl e \<Rightarrow> Inl e | Inr x \<Rightarrow> Inr (Some x)))"

definition get_current_revision :: "db \<Rightarrow> document \<Rightarrow> error + revision option" where
  "get_current_revision s d =
     (case current_revision d of
        None \<Rightarrow> Inr None
      | Some c \<Rightarrow> (case get_revision s c of Inl e \<Rightarrow> Inl e | Inr x \<Rightarrow> Inr (Some x)))"

definition get_latest_localizable_revision :: "db \<Rightarrow> document \<Rightarrow> error + revision option" where
  "get_latest_localizable_revision s d =
     (case latest_localizable_revision d of
        None \<Rightarrow> Inr None
      | Some c \<Rightarrow> (case get_revision s c of Inl e \<Rightarrow> Inl e | Inr x \<Rightarrow> Inr (Some x)))"

text \<open>\<open>Document._clean_is_localizable\<close> (lines 160-186); the result is the instance.\<close>

definition clean_is_localizable :: "config \<Rightarrow> db \<Rightarrow> document \<Rightarrow> error + document" where
  "clean_is_localizable cfg s d =
     (let d1 = (if doc_locale d \<noteq> WIKI_DEFAULT_LANGUAGE cfg then d\<lparr>is_localizable := False\<rparr> else d)
      in case get_parent s d1 of
           Inl e \<Rightarrow> Inl e
         | Inr par \<Rightarrow>
             if (case par of None \<Rightarrow> False | Some p \<Rightarrow> \<not> is_localizable p)
             then Inl ValidationError
             else if truthy (doc_id d1) \<and> \<not> is_localizable d1 \<and> translations_of s (doc_id d1) \<noteq> []
             then Inl ValidationError
             else Inr d1)"

text \<open>
  The two attributes a translation inherits. \<open>inherit a src dst\<close> is
  \<open>setattr(dst, a, getattr(src, a))\<close>.
\<close>

datatype inherited = Is_archived | Category

fun inherit :: "inherited \<Rightarrow> document \<Rightarrow> document \<Rightarrow> document" where
  "inherit Is_archived src dst = dst\<lparr>is_archived := is_archived src\<rparr>"
| "inherit Category src dst = dst\<lparr>category := category src\<rparr>"

text \<open>
  \<open>Document._ensure_inherited_attr\<close> (lines 188-203). With a parent the instance takes the
  parent's value; without one, a saved document writes its value into the rows of its
  translations (\<open>self.translations.all().update(...)\<close>).
\<close>

definition ensure_inherited_attr :: "db \<Rightarrow> document \<Rightarrow> inherited \<Rightarrow> error + db \<times> document" where
  "ensure_inherited_attr s d a =
     (case get_parent s d of
        Inl e \<Rightarrow> Inl e
      | Inr (Some par) \<Rightarrow> Inr (s, inherit a par d)
      | Inr None \<Rightarrow>
          if truthy (doc_id d)
          then Inr (s\<lparr>documents := map (\<lambda>x. if parent x = doc_id d then inherit a d x else x) (documents s)\<rparr>, d)
          else Inr (s, d))"

text \<open>\<open>Document._clean_category\<close> (lines 205-213).\<close>

definition clean_category :: "config \<Rightarrow> db \<Rightarrow> document \<Rightarrow> error + db \<times> document" where
  "clean_category cfg s d =
     (case get_parent s d of
        Inl e \<Rightarrow> Inl e
      | Inr par \<Rightarrow>
          if par = None \<and> category d \<notin> set (map fst (CATEGORIES cfg))
          then Inl ValidationError
          else ensure_inherited_attr s d Category)"

subsection \<open>Names for a redirect\<close>

text \<open>\<open>'%d' % n\<close>: the decimal digits of a number.\<close>

definition digit :: "nat \<Rightarrow> char" where
  "digit n = char_of (48 + n)"

function decimal :: "nat \<Rightarrow> string" where
  "decimal n = (if n < 10 then [digit n] else decimal (n div 10) @ [digit (n mod 10)])"
  by pat_completeness auto
termination
  by (relation "measure (\<lambda>n. n)") auto

declare decimal.simps [simp del]

text \<open>\<open>template % dict(old=old, number=i)\<close>.\<close>

fun format_tok :: "string \<Rightarrow> nat \<Rightarrow> tok \<Rightarrow> string" where
  "format_tok old i (Lit s) = s"
| "format_tok old i Old = old"
| "format_tok old i Number = decimal i"

definition format_template :: "template \<Rightarrow> string \<Rightarrow> nat \<Rightarrow> string" where
  "format_template t old i = concat (map (format_tok old i) t)"

text \<open>
  The loop of \<open>unique_attr\<close> (lines 230-235), entered with \<open>i = 1\<close>. It has no bound: where
  every candidate collides it never returns, which is the value \<open>None\<close>.
\<close>

partial_function (option) unique_attr_loop :: "db \<Rightarrow> document \<Rightarrow> attr \<Rightarrow> template \<Rightarrow> nat \<Rightarrow> string option" where
  "unique_attr_loop s d a t i =
     (let new_value = format_template t (getattr d a) i
      in if \<not> collides s d a new_value then Some new_value
         else unique_attr_loop s d a t (i + 1))"

definition unique_attr :: "db \<Rightarrow> document \<Rightarrow> attr \<Rightarrow> template \<Rightarrow> string option" where
  "unique_attr s d a t = unique_attr_loop s d a t 1"

text \<open>\<open>Document._attr_for_redirect\<close> (lines 215-243).\<close>

definition attr_for_redirect :: "db \<Rightarrow> document \<Rightarrow> attr \<Rightarrow> template \<Rightarrow> string option" where
  "attr_for_redirect s d a t =
     (case old_attr d a of
        Some old \<Rightarrow> Some old
      | None \<Rightarrow> unique_attr s d a t)"

section \<open>Saving documents and revisions\<close>

text \<open>
  \<open>models.Model.save\<close>: an instance without a key is inserted under a new key, one more
  than the largest key of the table; an instance with a key replaces the row of that key,
  or is inserted when there is no such row. The stored row has no \<open>old_\<close> attributes.
\<close>

definition key_of :: "nat option \<Rightarrow> nat" where
  "key_of k = (case k of None \<Rightarrow> 0 | Some n \<Rightarrow> n)"

definition next_doc_id :: "db \<Rightarrow> nat" where
  "next_doc_id s = Suc (fold (\<lambda>x m. max (key_of (doc_id x)) m) (documents s) 0)"

definition next_rev_id :: "db \<Rightarrow> nat" where
  "next_rev_id s = Suc (fold (\<lambda>x m. max (key_of (rev_id x)) m) (revisions s) 0)"

definition stored :: "document \<Rightarrow> document" where
  "stored d = d\<lparr>old_title := None, old_slug := None\<rparr>"

definition save_document_row :: "db \<Rightarrow> document \<Rightarrow> db \<times> document" where
  "save_document_row s d =
     (case doc_id d of
        None \<Rightarrow>
          (let d' = d\<lparr>doc_id := Some (next_doc_id s)\<rparr>
           in (s\<lparr>documents := documents s @ [stored d']\<rparr>, d'))
      | Some k \<Rightarrow>
          if \<exists>x \<in> set (documents s). doc_id x = Some k
          then (s\<lparr>documents := map (\<lambda>x. if doc_id x = Some k then stored d else x) (documents s)\<rparr>, d)
          else (s\<lparr>documents := documents s @ [stored d]\<rparr>, d))"

definition save_revision_row :: "db \<Rightarrow> revision \<Rightarrow> db \<times> revision" where
  "save_revision_row s r =
     (case rev_id r of
        None \<Rightarrow>
          (let r' = r\<lparr>rev_id := Some (next_rev_id s)\<rparr>
           in (s\<lparr>revisions := revisions s @ [r']\<rparr>, r'))
      | Some k \<Rightarrow>
          if \<exists>x \<in> set (revisions s). rev_id x = Some k
          then (s\<lparr>revisions := map (\<lambda>x. if rev_id x = Some k then r else x) (revisions s)\<rparr>, r)
          else (s\<lparr>revisions := revisions s @ [r]\<rparr>, r))"

text \<open>\<open>title.startswith(prefix)\<close>.\<close>

definition startswith :: "string \<Rightarrow> string \<Rightarrow> bool" where
  "startswith s p = (take (length p) s = p)"

text \<open>\<open>Revision.content_parsed\<close> (lines 1008-1012), given the revision's document.\<close>

definition content_parsed :: "config \<Rightarrow> revision \<Rightarrow> document \<Rightarrow> string" where
  "content_parsed cfg r d = wiki_to_html cfg (content r) (doc_locale d) (doc_id d)"

text \<open>\<open>Document.original\<close> (lines 428-431): \<open>self.parent or self\<close>.\<close>

definition original :: "db \<Rightarrow> document \<Rightarrow> error + document" where
  "original s d =
     (case get_parent s d of
        Inl e \<Rightarrow> Inl e
      | Inr None \<Rightarrow> Inr d
      | Inr (Some p) \<Rightarrow> Inr p)"

text \<open>
  \<open>Revision._based_on_is_clean\<close> (lines 872-887), given \<open>self.document\<close>. Two model instances
  are equal when their keys are.
\<close>

definition based_on_is_clean :: "db \<Rightarrow> revision \<Rightarrow> document \<Rightarrow> error + revision option \<times> bool" where
  "based_on_is_clean s r d =
     (case original s d of
        Inl e \<Rightarrow> Inl e
      | Inr orig \<Rightarrow>
          (case based_on r of
             None \<Rightarrow> Inr (None, True)
           | Some b \<Rightarrow>
               (case get_revision s b of
                  Inl e \<Rightarrow> Inl e
                | Inr bo \<Rightarrow>
                    (case (case document bo of None \<Rightarrow> Inl DoesNotExist | Some k \<Rightarrow> get_document s k) of
                       Inl e \<Rightarrow> Inl e
                     | Inr bd \<Rightarrow>
                         if doc_id bd \<noteq> doc_id orig
                         then (case localizable_or_latest_revision s orig False of
                                 Inl e \<Rightarrow> Inl e
                               | Inr x \<Rightarrow> Inr (x, False))
                         else Inr (Some bo, True)))))"

text \<open>
  The instance \<open>Document.objects.create(locale=..., title=..., slug=..., category=...,
  is_localizable=False)\<close> builds (lines 269-275), every other field at its default, and
  the one \<open>Revision.objects.create(...)\<close> builds (lines 276-280).
\<close>

definition new_redirect_document :: "document \<Rightarrow> string \<Rightarrow> string \<Rightarrow> document" where
  "new_redirect_document d t sl =
     \<lparr> doc_id = None, title = t, slug = sl, is_template = False, is_localizable = False,
       doc_locale = doc_locale d, current_revision = None, latest_localizable_revision = None,
       parent = None, html = [], category = category d, is_archived = False,
       old_title = None, old_slug = None \<rparr>"

definition new_redirect_revision :: "config \<Rightarrow> document \<Rightarrow> document \<Rightarrow> revision \<Rightarrow> revision" where
  "new_redirect_revision cfg d doc cur =
     \<lparr> rev_id = None, document = doc_id doc,
       content = fst (REDIRECT_CONTENT cfg) @ title d @ snd (REDIRECT_CONTENT cfg),
       reviewed = None, significance = None, reviewer = Some (creator cur),
       creator = creator cur, is_approved = True, based_on = None,
       is_ready_for_localization = False \<rparr>"

text \<open>
  Which branch of \<open>Revision.save\<close> runs after the row is written (the conditions of lines
  925-927 and 948-950, with Python's order of evaluation: a related object is read only
  when the test before it holds).
\<close>

datatype save_branch = Update_current | Update_localizable | No_update

definition Revision_save_branch :: "db \<Rightarrow> revision \<Rightarrow> document \<Rightarrow> error + save_branch" where
  "Revision_save_branch s r d =
     (case (if is_approved r
            then (case get_current_revision s d of
                    Inl e \<Rightarrow> Inl e
                  | Inr None \<Rightarrow> Inr True
                  | Inr (Some c) \<Rightarrow> Inr (rev_id c < rev_id r))
            else Inr False) of
        Inl e \<Rightarrow> Inl e
      | Inr True \<Rightarrow> Inr Update_current
      | Inr False \<Rightarrow>
          if is_ready_for_localization r
          then (case get_latest_localizable_revision s d of
                  Inl e \<Rightarrow> Inl e
                | Inr None \<Rightarrow> Inr Update_localizable
                | Inr (Some l) \<Rightarrow> Inr (if rev_id l < rev_id r then Update_localizable else No_update))
          else Inr No_update)"

text \<open>
  The contributors \<open>Revision.save\<close> adds (lines 929-940): the creators of the document's
  revisions that are not rejected and, when there is a current revision, newer than it.
\<close>

definition new_contributors :: "db \<Rightarrow> document \<Rightarrow> revision option \<Rightarrow> user set" where
  "new_contributors s d cur =
     (let new_revs = filter (\<lambda>x. \<not> rejected x) (revisions_of s (doc_id d));
          new_revs' = (case cur of None \<Rightarrow> new_revs | Some c \<Rightarrow> filter (\<lambda>x. rev_id c < rev_id x) new_revs)
      in set (map creator new_revs'))"

text \<open>
  The exception that \<open>Document.save\<close> passes to \<open>_raise_if_collides\<close> with each attribute
  (lines 248-249).
\<close>

fun collision_of :: "attr \<Rightarrow> error" where
  "collision_of Slug = SlugCollision"
| "collision_of Title = TitleCollision"

text \<open>
  The first half of \<open>Document.save\<close> (lines 246-261): the template flag, the two collision
  checks, the three validations and the write of the row. The result is the database and
  the instance after \<open>super(Document, self).save()\<close>.
\<close>

definition Document_save_row :: "config \<Rightarrow> db \<Rightarrow> document \<Rightarrow> error + db \<times> document" where
  "Document_save_row cfg s d0 =
     (let d = d0\<lparr>is_template := startswith (title d0) (TEMPLATE_TITLE_PREFIX cfg)\<rparr> in
      case raise_if_collides s d Slug SlugCollision of Inl e \<Rightarrow> Inl e | Inr _ \<Rightarrow>
      case raise_if_collides s d Title TitleCollision of Inl e \<Rightarrow> Inl e | Inr _ \<Rightarrow>
      case clean_is_localizable cfg s d of Inl e \<Rightarrow> Inl e | Inr d1 \<Rightarrow>
      case ensure_inherited_attr s d1 Is_archived of Inl e \<Rightarrow> Inl e | Inr (s1, d2) \<Rightarrow>
      case clean_category cfg s1 d2 of Inl e \<Rightarrow> Inl e | Inr (s2, d3) \<Rightarrow>
      Inr (save_document_row s2 d3))"

text \<open>
  \<open>Document.save\<close> (lines 245-287) and \<open>Revision.save\<close> (lines 913-954). Each calls the other:
  the document's save creates the redirect and its revision, the revision's save saves its
  document. The first argument bounds the depth of these calls, and the result \<open>None\<close> is
  a call that did not return: the bound was reached, or \<open>unique_attr\<close> looped. An exception
  is \<open>Some (Inl e)\<close>; the database is then whatever the enclosing transaction makes of it.
  \<open>Revision.save\<close> takes the instance behind \<open>self.document\<close> and gives it back.
  \<open>Document.save\<close> goes on from \<open>Document_save_row\<close> with the redirect (lines 263-285).
  \<open>parse_and_calculate_links\<close>, its last call, writes DocumentLink rows only and its result
  is dropped, so it has no counterpart here.
\<close>

fun Document_save :: "nat \<Rightarrow> config \<Rightarrow> db \<Rightarrow> document \<Rightarrow> (error + db \<times> document) option"
  and Revision_save :: "nat \<Rightarrow> config \<Rightarrow> db \<Rightarrow> revision \<Rightarrow> document \<Rightarrow> (error + db \<times> revision \<times> document) option"
where
  "Document_save 0 cfg s d0 = None"
| "Document_save (Suc n) cfg s d0 =
     (case Document_save_row cfg s d0 of Inl e \<Rightarrow> Some (Inl e) | Inr (s3, d4) \<Rightarrow>
      let slug_changed = (old_slug d4 \<noteq> None); title_changed = (old_title d4 \<noteq> None) in
      case get_current_revision s3 d4 of Inl e \<Rightarrow> Some (Inl e) | Inr cur \<Rightarrow>
      (case cur of
         None \<Rightarrow> Some (Inr (s3, d4))
       | Some c \<Rightarrow>
           if slug_changed \<or> title_changed then
             (case attr_for_redirect s3 d4 Title (REDIRECT_TITLE cfg) of None \<Rightarrow> None | Some t \<Rightarrow>
              case attr_for_redirect s3 d4 Slug (REDIRECT_SLUG cfg) of None \<Rightarrow> None | Some sl \<Rightarrow>
              case Document_save n cfg s3 (new_redirect_document d4 t sl) of
                None \<Rightarrow> None
              | Some (Inl e) \<Rightarrow> Some (Inl e)
              | Some (Inr (s4, doc)) \<Rightarrow>
                  (case Revision_save n cfg s4 (new_redirect_revision cfg d4 doc c) doc of
                     None \<Rightarrow> None
                   | Some (Inl e) \<Rightarrow> Some (Inl e)
                   | Some (Inr (s5, _, _)) \<Rightarrow>
                       Some (Inr (s5, d4\<lparr>old_slug := None, old_title := None\<rparr>))))
           else Some (Inr (s3, d4))))"
| "Revision_save 0 cfg s r d = None"
| "Revision_save (Suc n) cfg s r d =
     (case based_on_is_clean s r d of Inl e \<Rightarrow> Some (Inl e) | Inr (_, is_clean) \<Rightarrow>
      if \<not> is_clean then Some (Inl ProgrammingError) else
      case save_revision_row s r of (s1, r1) \<Rightarrow>
      case Revision_save_branch s1 r1 d of
        Inl e \<Rightarrow> Some (Inl e)
      | Inr Update_current \<Rightarrow>
          (case get_current_revision s1 d of Inl e \<Rightarrow> Some (Inl e) | Inr cur \<Rightarrow>
           case doc_id d of None \<Rightarrow> Some (Inl ValueError) | Some k \<Rightarrow>
           let s2 = s1\<lparr>contributors := contributors s1 \<union> (\<lambda>u. (k, u)) ` new_contributors s1 d cur\<rparr>;
               d1 = (if is_ready_for_localization r1 then d\<lparr>latest_localizable_revision := rev_id r1\<rparr> else d);
               d2 = d1\<lparr>html := content_parsed cfg r1 d1\<rparr>;
               d3 = d2\<lparr>current_revision := rev_id r1\<rparr>
           in case Document_save n cfg s2 d3 of
                None \<Rightarrow> None
              | Some (Inl e) \<Rightarrow> Some (Inl e)
              | Some (Inr (s3, d4)) \<Rightarrow> Some (Inr (s3, r1, d4)))
      | Inr Update_localizable \<Rightarrow>
          (case Document_save n cfg s1 (d\<lparr>latest_localizable_revision := rev_id r1\<rparr>) of
             None \<Rightarrow> None
           | Some (Inl e) \<Rightarrow> Some (Inl e)
           | Some (Inr (s3, d4)) \<Rightarrow> Some (Inr (s3, r1, d4)))
      | Inr No_update \<Rightarrow> Some (Inr (s1, r1, d)))"

section \<open>Revision: validation and deletion\<close>

text \<open>
  \<open>Revision.can_be_readied_for_localization\<close> (lines 1014-1022). The document is read last,
  and only when the two tests before it hold; \<open>None\<close> is a revision without a document.
\<close>

definition can_be_readied_for_localization :: "config \<Rightarrow> revision \<Rightarrow> document option \<Rightarrow> error + bool" where
  "can_be_readied_for_localization cfg r dopt =
     (if is_approved r \<and> Some (TYPO_SIGNIFICANCE cfg) < significance r
      then (case dopt of
              None \<Rightarrow> Inl DoesNotExist
            | Some d \<Rightarrow> Inr (doc_locale d = WIKI_DEFAULT_LANGUAGE cfg))
      else Inr False)"

text \<open>
  \<open>Revision.clean\<close> (lines 889-911). The result is the instance as the method leaves it
  and the exception it raised, if any: the corrected \<open>based_on\<close> is assigned before
  \<open>ValidationError\<close> is raised.
\<close>

definition Revision_clean :: "config \<Rightarrow> db \<Rightarrow> revision \<Rightarrow> document option \<Rightarrow> revision \<times> error option" where
  "Revision_clean cfg s r dopt =
     (case (case dopt of
              None \<Rightarrow> (r\<lparr>based_on := None\<rparr>, None)
            | Some d \<Rightarrow>
                (case original s d of
                   Inl e \<Rightarrow> (r\<lparr>based_on := None\<rparr>, None)
                 | Inr _ \<Rightarrow>
                     (case based_on_is_clean s r d of
                        Inl e \<Rightarrow> (r, Some e)
                      | Inr (b, is_clean) \<Rightarrow>
                          if \<not> is_clean
                          then (r\<lparr>based_on := (case b of None \<Rightarrow> None | Some x \<Rightarrow> rev_id x)\<rparr>,
                                Some ValidationError)
                          else (r, None)))) of
        (r1, Some e) \<Rightarrow> (r1, Some e)
      | (r1, None) \<Rightarrow>
          (case can_be_readied_for_localization cfg r1 dopt of
             Inl e \<Rightarrow> (r1, Some e)
           | Inr ok \<Rightarrow> (if \<not> ok then r1\<lparr>is_ready_for_localization := False\<rparr> else r1, None)))"

text \<open>
  \<open>latest_revision(excluded_rev, constraint)\<close> of \<open>Revision.delete\<close> (lines 958-968), for the
  document \<open>d\<close>.
\<close>

definition latest_revision :: "db \<Rightarrow> document \<Rightarrow> revision \<Rightarrow> (revision \<Rightarrow> bool) \<Rightarrow> revision option" where
  "latest_revision s d excluded_rev constraint =
     latest (filter (\<lambda>x. rev_id x \<noteq> rev_id excluded_rev) (filter constraint (revisions_of s (doc_id d))))"

text \<open>
  Modelled from the spec: \<open>ModelBase.update\<close> of kitsune.sumo.models is not among the
  sources. \<open>document.update(field=value, ...)\<close> assigns the fields on the instance and in
  the stored row of the instance's key ("recompute it as ...", "re-point"), which \<open>f\<close>
  does to a document.
\<close>

definition Document_update :: "db \<Rightarrow> document \<Rightarrow> (document \<Rightarrow> document) \<Rightarrow> db \<times> document" where
  "Document_update s d f =
     (s\<lparr>documents := map (\<lambda>x. if doc_id d \<noteq> None \<and> doc_id x = doc_id d then f x else x) (documents s)\<rparr>,
      f d)"

text \<open>
  \<open>Revision.delete\<close> (lines 956-987), given the instance behind \<open>self.document\<close>, in its
  steps. Lines 973-979: when the current revision is the one deleted, the document steps
  back to the latest other approved revision, whose \<open>content_parsed\<close> reads its document
  from the database.
\<close>

definition delete_step_current :: "config \<Rightarrow> db \<Rightarrow> revision \<Rightarrow> document \<Rightarrow> error + db \<times> document" where
  "delete_step_current cfg s1 r d =
     (case get_current_revision s1 d of Inl e \<Rightarrow> Inl e | Inr cur \<Rightarrow>
      if (case cur of None \<Rightarrow> False | Some c \<Rightarrow> rev_id c = rev_id r)
      then (case latest_revision s1 d r is_approved of
              None \<Rightarrow> Inr (Document_update s1 d (\<lambda>x. x\<lparr>current_revision := None, html := []\<rparr>))
            | Some new_current \<Rightarrow>
                (case (case document new_current of
                         None \<Rightarrow> Inl DoesNotExist
                       | Some k \<Rightarrow> get_document s1 k) of
                   Inl e \<Rightarrow> Inl e
                 | Inr nd \<Rightarrow>
                     Inr (Document_update s1 d
                            (\<lambda>x. x\<lparr>current_revision := rev_id new_current,
                                    html := content_parsed cfg new_current nd\<rparr>))))
      else Inr (s1, d))"

text \<open>Lines 981-985: likewise for the latest localizable revision.\<close>

definition delete_step_localizable :: "db \<Rightarrow> revision \<Rightarrow> document \<Rightarrow> error + db \<times> document" where
  "delete_step_localizable s2 r d1 =
     (case get_latest_localizable_revision s2 d1 of Inl e \<Rightarrow> Inl e | Inr llr \<Rightarrow>
      if (case llr of None \<Rightarrow> False | Some l \<Rightarrow> rev_id l = rev_id r)
      then Inr (Document_update s2 d1
                  (\<lambda>x. x\<lparr>latest_localizable_revision :=
                            (case latest_revision s2 d1 r (\<lambda>x. is_approved x \<and> is_ready_for_localization x) of
                               None \<Rightarrow> None
                             | Some n \<Rightarrow> rev_id n)\<rparr>))
      else Inr (s2, d1))"

text \<open>
  \<open>models.Model.delete\<close> (line 987) refuses an instance without a key and deletes, with the
  row, the rows that refer to it: every foreign key of the two tables has the default
  \<open>on_delete\<close>, which cascades. \<open>based_on\<close>, \<open>current_revision\<close> and
  \<open>latest_localizable_revision\<close> refer to a revision (lines 72-78 and 853), \<open>parent\<close> and
  the \<open>document\<close> of a revision refer to a document (lines 83 and 828). \<open>cascade_step\<close> adds
  to the keys of the documents and of the revisions collected so far those of the rows
  that refer to one of them; \<open>collect_cascade\<close> starts from the revision and takes one step
  for each stored row, after which nothing is left to add; \<open>Model_delete\<close> removes what
  was collected, and the contributor rows of the removed documents.
\<close>

definition points_into :: "nat option \<Rightarrow> nat set \<Rightarrow> bool" where
  "points_into k ks = (case k of None \<Rightarrow> False | Some n \<Rightarrow> n \<in> ks)"

definition cascade_step :: "db \<Rightarrow> nat set \<times> nat set \<Rightarrow> nat set \<times> nat set" where
  "cascade_step s c =
     (case c of (ds, rs) \<Rightarrow>
        (ds \<union> set (map (\<lambda>x. key_of (doc_id x))
                 (filter (\<lambda>x. doc_id x \<noteq> None \<and>
                              (points_into (current_revision x) rs \<or>
                               points_into (latest_localizable_revision x) rs \<or>
                               points_into (parent x) ds))
                    (documents s))),
         rs \<union> set (map (\<lambda>y. key_of (rev_id y))
                 (filter (\<lambda>y. rev_id y \<noteq> None \<and>
                              (points_into (based_on y) rs \<or> points_into (document y) ds))
                    (revisions s)))))"

fun cascade :: "nat \<Rightarrow> db \<Rightarrow> nat set \<times> nat set \<Rightarrow> nat set \<times> nat set" where
  "cascade 0 s c = c"
| "cascade (Suc n) s c = cascade n s (cascade_step s c)"

definition collect_cascade :: "db \<Rightarrow> nat \<Rightarrow> nat set \<times> nat set" where
  "collect_cascade s k = cascade (length (documents s) + length (revisions s)) s ({}, {k})"

definition Model_delete :: "db \<Rightarrow> nat \<Rightarrow> db" where
  "Model_delete s k =
     (case collect_cascade s k of (ds, rs) \<Rightarrow>
        s\<lparr>documents := filter (\<lambda>x. \<not> points_into (doc_id x) ds) (documents s),
          revisions := filter (\<lambda>y. \<not> points_into (rev_id y) rs) (revisions s),
          contributors := Set.filter (\<lambda>p. fst p \<notin> ds) (contributors s)\<rparr>)"

text \<open>
  The keys of the stored rows, and the number of them that a collection has not reached:
  each step that adds anything lowers it, which is why one step for each stored row is
  enough.
\<close>

definition stored_keys :: "db \<Rightarrow> nat set \<times> nat set" where
  "stored_keys s = ((\<lambda>x. key_of (doc_id x)) ` set (documents s), (\<lambda>y. key_of (rev_id y)) ` set (revisions s))"

definition uncollected :: "db \<Rightarrow> nat set \<times> nat set \<Rightarrow> nat" where
  "uncollected s c = card (fst (stored_keys s) - fst c) + card (snd (stored_keys s) - snd c)"

text \<open>
  The whole method: line 970 sets to null every \<open>based_on\<close> that points to the revision,
  then the two steps, then \<open>models.Model.delete\<close>. The method's docstring is "Dodge
  cascading delete of documents and other revisions": after the three updates no row
  refers to the revision, provided the instance behind \<open>self.document\<close> is in step with
  its row and no other document has the revision as its current or latest localizable
  one.
\<close>

definition Revision_delete :: "config \<Rightarrow> db \<Rightarrow> revision \<Rightarrow> document \<Rightarrow> error + db \<times> document" where
  "Revision_delete cfg s r d =
     (let s1 = s\<lparr>revisions :=
                   map (\<lambda>x. if based_on x \<noteq> None \<and> based_on x = rev_id r then x\<lparr>based_on := None\<rparr> else x)
                     (revisions s)\<rparr>
      in
      case delete_step_current cfg s1 r d of Inl e \<Rightarrow> Inl e | Inr (s2, d1) \<Rightarrow>
      case delete_step_localizable s2 r d1 of Inl e \<Rightarrow> Inl e | Inr (s3, d2) \<Rightarrow>
      case rev_id r of
        None \<Rightarrow> Inl AssertionError
      | Some k \<Rightarrow> Inr (Model_delete s3 k, d2))"

section \<open>Specification vocabulary and example data\<close>

text \<open>
  "The highest-id revision among those of \<open>rs\<close> that satisfy \<open>P\<close>", in the words of the
  specification.
\<close>

definition is_highest_id :: "revision list \<Rightarrow> (revision \<Rightarrow> bool) \<Rightarrow> revision \<Rightarrow> bool" where
  "is_highest_id rs P x = (x \<in> set rs \<and> P x \<and> (\<forall>y \<in> set rs. P y \<longrightarrow> rev_id y \<le> rev_id x))"

text \<open>
  The scenario of the specification: document A (en-US, slug foo) with the approved, ready
  and major revisions R1 and R3, and its German translation B whose current revision R2 is
  based on R1.
\<close>

definition ex_cfg :: config where
  "ex_cfg = \<lparr> WIKI_DEFAULT_LANGUAGE = ''en-US'',
      CATEGORIES = [(10, ''Troubleshooting''), (20, ''How to'')],
      TEMPLATE_TITLE_PREFIX = ''Template:'',
      TYPO_SIGNIFICANCE = 10, MEDIUM_SIGNIFICANCE = 20, MAJOR_SIGNIFICANCE = 30,
      REDIRECT_CONTENT = (''REDIRECT [['', '']]''),
      REDIRECT_TITLE = [Old, Lit '' Redirect '', Number],
      REDIRECT_SLUG = [Old, Lit ''-redirect-'', Number],
      wiki_to_html = (\<lambda>markup loc k. ''<p>'' @ markup @ ''</p>'') \<rparr>"

definition ex_A :: document where
  "ex_A = \<lparr> doc_id = Some 1, title = ''Foo'', slug = ''foo'', is_template = False,
      is_localizable = True, doc_locale = ''en-US'', current_revision = Some 1,
      latest_localizable_revision = Some 1, parent = None, html = ''<p>one</p>'',
      category = 10, is_archived = False, old_title = None, old_slug = None \<rparr>"

definition ex_B :: document where
  "ex_B = \<lparr> doc_id = Some 2, title = ''Fu'', slug = ''fu'', is_template = False,
      is_localizable = False, doc_locale = ''de'', current_revision = Some 2,
      latest_localizable_revision = None, parent = Some 1, html = ''<p>eins</p>'',
      category = 10, is_archived = False, old_title = None, old_slug = None \<rparr>"

definition ex_R1 :: revision where
  "ex_R1 = \<lparr> rev_id = Some 1, document = Some 1, content = ''one'', reviewed = Some 5,
      significance = Some 30, reviewer = Some 7, creator = 7, is_approved = True,
      based_on = None, is_ready_for_localization = True \<rparr>"

definition ex_R2 :: revision where
  "ex_R2 = \<lparr> rev_id = Some 2, document = Some 2, content = ''eins'', reviewed = Some 6,
      significance = None, reviewer = Some 8, creator = 8, is_approved = True,
      based_on = Some 1, is_ready_for_localization = False \<rparr>"

definition ex_R3 :: revision where
  "ex_R3 = \<lparr> rev_id = Some 3, document = Some 1, content = ''three'', reviewed = Some 9,
      significance = Some 30, reviewer = Some 7, creator = 9, is_approved = True,
      based_on = None, is_ready_for_localization = True \<rparr>"

definition ex_db :: db where
  "ex_db = \<lparr> documents = [ex_A, ex_B], revisions = [ex_R1, ex_R2, ex_R3],
      contributors = {(1, 7), (2, 8)} \<rparr>"

text \<open>A new revision of the translation B that is based on B's own revision R2.\<close>

definition ex_R4 :: revision where
  "ex_R4 = \<lparr> rev_id = None, document = Some 2, content = ''zwei'', reviewed = None,
      significance = None, reviewer = None, creator = 8, is_approved = False,
      based_on = Some 2, is_ready_for_localization = False \<rparr>"

text \<open>
  Deleting R3 while it is both the current and the latest localizable revision of A, and
  the translation's revision R2 is based on it.
\<close>

definition ex_A3 :: document where
  "ex_A3 = ex_A\<lparr>current_revision := Some 3, latest_localizable_revision := Some 3, html := ''<p>three</p>''\<rparr>"

definition ex_db3 :: db where
  "ex_db3 = \<lparr> documents = [ex_A3, ex_B], revisions = [ex_R1, ex_R2\<lparr>based_on := Some 3\<rparr>, ex_R3],
      contributors = {(1, 7), (1, 9), (2, 8)} \<rparr>"

definition ex_A3_after :: document where
  "ex_A3_after = ex_A3\<lparr>current_revision := Some 1, latest_localizable_revision := Some 1, html := ''<p>one</p>''\<rparr>"

definition ex_db3_after :: db where
  "ex_db3_after = \<lparr> documents = [ex_A3_after, ex_B], revisions = [ex_R1, ex_R2\<lparr>based_on := None\<rparr>],
      contributors = {(1, 7), (1, 9), (2, 8)} \<rparr>"

text \<open>A database in which the first redirect slug of A is already taken.\<close>

definition ex_C :: document where
  "ex_C = \<lparr> doc_id = Some 3, title = ''Foo Redirect 1'', slug = ''foo-redirect-1'', is_template = False,
      is_localizable = False, doc_locale = ''en-US'', current_revision = None,
      latest_localizable_revision = None, parent = None, html = [],
      category = 10, is_archived = False, old_title = None, old_slug = None \<rparr>"

definition ex_db7 :: db where
  "ex_db7 = ex_db\<lparr>documents := [ex_A, ex_B, ex_C]\<rparr>"

text \<open>
  The rename scenario of the specification: the slug of A goes from foo to bar while A has
  a current revision. \<open>ex_db_bar\<close> is the database after the save, with the redirect
  document and its revision.
\<close>

definition ex_A_renamed :: document where
  "ex_A_renamed = Document_setattr ex_A Slug ''bar''"

definition ex_A_bar :: document where
  "ex_A_bar = ex_A\<lparr>slug := ''bar''\<rparr>"

definition ex_redirect :: document where
  "ex_redirect = \<lparr> doc_id = Some 3, title = ''Foo Redirect 1'', slug = ''foo'', is_template = False,
      is_localizable = False, doc_locale = ''en-US'', current_revision = Some 4,
      latest_localizable_revision = None, parent = None, html = ''<p>REDIRECT [[Foo]]</p>'',
      category = 10, is_archived = False, old_title = None, old_slug = None \<rparr>"

definition ex_R_redirect :: revision where
  "ex_R_redirect = \<lparr> rev_id = Some 4, document = Some 3, content = ''REDIRECT [[Foo]]'', reviewed = None,
      significance = None, reviewer = Some 7, creator = 7, is_approved = True,
      based_on = None, is_ready_for_localization = False \<rparr>"

definition ex_db_bar :: db where
  "ex_db_bar = \<lparr> documents = [ex_A_bar, ex_B, ex_redirect],
      revisions = [ex_R1, ex_R2, ex_R3, ex_R_redirect],
      contributors = {(1, 7), (2, 8), (3, 7)} \<rparr>"

text \<open>
  A new approved revision of A, saved while R1 is A's current revision, and the database
  after the save.
\<close>

definition ex_R5 :: revision where
  "ex_R5 = \<lparr> rev_id = None, document = Some 1, content = ''five'', reviewed = Some 11,
      significance = Some 30, reviewer = Some 7, creator = 9, is_approved = True,
      based_on = None, is_ready_for_localization = True \<rparr>"

definition ex_A5 :: document where
  "ex_A5 = ex_A\<lparr>latest_localizable_revision := Some 4, html := ''<p>five</p>'',
      current_revision := Some 4\<rparr>"

definition ex_db5 :: db where
  "ex_db5 = \<lparr> documents = [ex_A5, ex_B], revisions = [ex_R1, ex_R2, ex_R3, ex_R5\<lparr>rev_id := Some 4\<rparr>],
      contributors = {(1, 7), (2, 8), (1, 9)} \<rparr>"

text \<open>
  Saving the translation B with a category and an archived flag of its own, and saving the
  root A after it has been archived and moved to another category.
\<close>

definition ex_B_edited :: document where
  "ex_B_edited = ex_B\<lparr>category := 20, is_archived := True\<rparr>"

definition ex_A_archived :: document where
  "ex_A_archived = ex_A\<lparr>category := 20, is_archived := True\<rparr>"

definition ex_B_archived :: document where
  "ex_B_archived = ex_B\<lparr>category := 20, is_archived := True\<rparr>"

definition ex_db_archived :: db where
  "ex_db_archived = ex_db\<lparr>documents := [ex_A_archived, ex_B_archived]\<rparr>"

text \<open>
  The title of A goes from Foo to Bar while A has a current revision. \<open>ex_db_retitled\<close> is
  the database after the save: the redirect has the old title, and its revision points
  to the new one.
\<close>

definition ex_A_retitling :: document where
  "ex_A_retitling = Document_setattr ex_A Title ''Bar''"

definition ex_A_retitled :: document where
  "ex_A_retitled = ex_A\<lparr>title := ''Bar''\<rparr>"

definition ex_redirect_Foo :: document where
  "ex_redirect_Foo = \<lparr> doc_id = Some 3, title = ''Foo'', slug = ''foo-redirect-1'', is_template = False,
      is_localizable = False, doc_locale = ''en-US'', current_revision = Some 4,
      latest_localizable_revision = None, parent = None, html = ''<p>REDIRECT [[Bar]]</p>'',
      category = 10, is_archived = False, old_title = None, old_slug = None \<rparr>"

definition ex_R_redirect_Bar :: revision where
  "ex_R_redirect_Bar = \<lparr> rev_id = Some 4, document = Some 3, content = ''REDIRECT [[Bar]]'', reviewed = None,
      significance = None, reviewer = Some 7, creator = 7, is_approved = True,
      based_on = None, is_ready_for_localization = False \<rparr>"

definition ex_db_retitled :: db where
  "ex_db_retitled = \<lparr> documents = [ex_A_retitled, ex_B, ex_redirect_Foo],
      revisions = [ex_R1, ex_R2, ex_R3, ex_R_redirect_Bar],
      contributors = {(1, 7), (2, 8), (3, 7)} \<rparr>"

text \<open>
  The same rename where the first redirect title is taken by the document C: the redirect
  gets the next free title.
\<close>

definition ex_redirect_2 :: document where
  "ex_redirect_2 = \<lparr> doc_id = Some 4, title = ''Foo Redirect 2'', slug = ''foo'', is_template = False,
      is_localizable = False, doc_locale = ''en-US'', current_revision = Some 4,
      latest_localizable_revision = None, parent = None, html = ''<p>REDIRECT [[Foo]]</p>'',
      category = 10, is_archived = False, old_title = None, old_slug = None \<rparr>"

definition ex_R_redirect_2 :: revision where
  "ex_R_redirect_2 = \<lparr> rev_id = Some 4, document = Some 4, content = ''REDIRECT [[Foo]]'', reviewed = None,
      significance = None, reviewer = Some 7, creator = 7, is_approved = True,
      based_on = None, is_ready_for_localization = False \<rparr>"

definition ex_db7_bar :: db where
  "ex_db7_bar = \<lparr> documents = [ex_A_bar, ex_B, ex_C, ex_redirect_2],
      revisions = [ex_R1, ex_R2, ex_R3, ex_R_redirect_2],
      contributors = {(1, 7), (2, 8), (4, 7)} \<rparr>"

section \<open>Properties\<close>

subsection \<open>The latest row of a queryset\<close>

lemma latest_eq_None: "latest rs = None \<longleftrightarrow> rs = []"
  by (induction rs) (auto split: option.splits)

lemma latest_mem: "latest rs = Some x \<Longrightarrow> x \<in> set rs"
  by (induction rs arbitrary: x) (auto split: option.splits if_splits)

lemma latest_max: "latest rs = Some x \<Longrightarrow> y \<in> set rs \<Longrightarrow> rev_id y \<le> rev_id x"
proof (induction rs arbitrary: x)
  case Nil
  then show ?case by simp
next
  case (Cons r rs)
  show ?case
  proof (cases "latest rs")
    case None
    then have "rs = []" by (simp add: latest_eq_None)
    with Cons.prems None show ?thesis by simp
  next
    case (Some m)
    with Cons.prems Cons.IH [OF Some] show ?thesis
      by (auto split: if_splits)
  qed
qed

lemma latest_filter_highest:
  "latest (filter P rs) = Some x \<Longrightarrow> is_highest_id rs P x"
  unfolding is_highest_id_def
  using latest_mem [of "filter P rs" x] latest_max [of "filter P rs" x]
  by auto

lemma latest_filter_None: "latest (filter P rs) = None \<longleftrightarrow> (\<forall>y \<in> set rs. \<not> P y)"
  by (simp add: latest_eq_None filter_empty_conv)

lemmas ex_defs = ex_cfg_def ex_A_def ex_B_def ex_R1_def ex_R2_def ex_R3_def ex_db_def

subsection \<open>Resolution order of the revision to translate from\<close>

text \<open>
  C5. \<open>localizable_or_latest_revision\<close> returns the document's latest localizable revision
  when that is set and the document is localizable; otherwise the approved revision of
  highest id if there is one; otherwise the highest-id revision that is not rejected
  (reviewed but not approved) if there is one; otherwise, with \<open>include_rejected\<close>, the
  highest-id revision of any kind; otherwise none.
\<close>

theorem localizable_or_latest_revision_order:
  assumes "localizable_or_latest_revision s d include_rejected = Inr res"
  shows "if latest_localizable_revision d \<noteq> None \<and> is_localizable d
         then \<exists>k rv. latest_localizable_revision d = Some k \<and> get_revision s k = Inr rv \<and> res = Some rv
         else if \<exists>r \<in> set (revisions_of s (doc_id d)). is_approved r
         then \<exists>x. res = Some x \<and> is_highest_id (revisions_of s (doc_id d)) is_approved x
         else if \<exists>r \<in> set (revisions_of s (doc_id d)). \<not> (reviewed r \<noteq> None \<and> \<not> is_approved r)
         then \<exists>x. res = Some x \<and>
                is_highest_id (revisions_of s (doc_id d)) (\<lambda>r. \<not> (reviewed r \<noteq> None \<and> \<not> is_approved r)) x
         else if include_rejected \<and> revisions_of s (doc_id d) \<noteq> []
         then \<exists>x. res = Some x \<and> is_highest_id (revisions_of s (doc_id d)) (\<lambda>r. True) x
         else res = None"
proof -
  let ?rs = "revisions_of s (doc_id d)"
  let ?unrej = "\<lambda>r. \<not> (reviewed r \<noteq> None \<and> \<not> is_approved r)"
  define fallback where "fallback =
     or_else (latest (filter is_approved ?rs))
       (or_else (latest (filter (\<lambda>r. \<not> rejected r) ?rs))
          (if include_rejected then latest ?rs else None))"
  have unrej: "(\<lambda>r. \<not> rejected r) = ?unrej"
    by (auto simp: rejected_def fun_eq_iff)
  have fb: "if \<exists>r \<in> set ?rs. is_approved r
         then \<exists>x. fallback = Some x \<and> is_highest_id ?rs is_approved x
         else if \<exists>r \<in> set ?rs. ?unrej r
         then \<exists>x. fallback = Some x \<and> is_highest_id ?rs ?unrej x
         else if include_rejected \<and> ?rs \<noteq> []
         then \<exists>x. fallback = Some x \<and> is_highest_id ?rs (\<lambda>r. True) x
         else fallback = None"
  proof (cases "latest (filter is_approved ?rs)")
    case (Some x)
    then have "is_highest_id ?rs is_approved x" by (rule latest_filter_highest)
    moreover from this have "\<exists>r \<in> set ?rs. is_approved r"
      by (auto simp: is_highest_id_def)
    ultimately show ?thesis using Some by (simp add: fallback_def or_else_def)
  next
    case None
    then have noapp: "\<not> (\<exists>r \<in> set ?rs. is_approved r)"
      by (simp add: latest_filter_None)
    show ?thesis
    proof (cases "latest (filter ?unrej ?rs)")
      case (Some x)
      then have "is_highest_id ?rs ?unrej x" by (rule latest_filter_highest)
      moreover from this have "\<exists>r \<in> set ?rs. ?unrej r"
        by (auto simp: is_highest_id_def)
      ultimately show ?thesis using Some None noapp
        by (simp add: fallback_def or_else_def unrej)
    next
      case None2: None
      then have nounrej: "\<not> (\<exists>r \<in> set ?rs. ?unrej r)"
        by (simp add: latest_filter_None)
      show ?thesis
      proof (cases "include_rejected \<and> ?rs \<noteq> []")
        case True
        then obtain x where x: "latest ?rs = Some x"
          using latest_eq_None [of ?rs] by auto
        then have "is_highest_id ?rs (\<lambda>r. True) x"
          using latest_filter_highest [of "\<lambda>r. True" ?rs x] by simp
        then show ?thesis using True x None None2 noapp nounrej
          by (simp add: fallback_def or_else_def unrej)
      next
        case False
        then have "(if include_rejected then latest ?rs else None) = None"
          by (auto simp: latest_eq_None)
        then show ?thesis using False None None2 noapp nounrej
          by (simp add: fallback_def or_else_def unrej)
      qed
    qed
  qed
  show ?thesis
  proof (cases "latest_localizable_revision d")
    case None
    with assms have "fallback = res"
      by (simp add: localizable_or_latest_revision_def fallback_def Let_def)
    with fb have fb': "if \<exists>r \<in> set ?rs. is_approved r
         then \<exists>x. res = Some x \<and> is_highest_id ?rs is_approved x
         else if \<exists>r \<in> set ?rs. ?unrej r
         then \<exists>x. res = Some x \<and> is_highest_id ?rs ?unrej x
         else if include_rejected \<and> ?rs \<noteq> []
         then \<exists>x. res = Some x \<and> is_highest_id ?rs (\<lambda>r. True) x
         else res = None"
      by (simp only:)
    have c: "\<not> (latest_localizable_revision d \<noteq> None \<and> is_localizable d)"
      using None by simp
    show ?thesis using fb' by (simp only: c if_False)
  next
    case (Some k)
    with assms obtain rv where rv: "get_revision s k = Inr rv"
      by (auto simp: localizable_or_latest_revision_def Let_def split: sum.splits)
    show ?thesis
    proof (cases "is_localizable d")
      case True
      with assms Some rv show ?thesis
        by (simp add: localizable_or_latest_revision_def Let_def)
    next
      case False
      with assms Some rv have "fallback = res"
        by (simp add: localizable_or_latest_revision_def fallback_def Let_def)
      with fb have fb': "if \<exists>r \<in> set ?rs. is_approved r
         then \<exists>x. res = Some x \<and> is_highest_id ?rs is_approved x
         else if \<exists>r \<in> set ?rs. ?unrej r
         then \<exists>x. res = Some x \<and> is_highest_id ?rs ?unrej x
         else if include_rejected \<and> ?rs \<noteq> []
         then \<exists>x. res = Some x \<and> is_highest_id ?rs (\<lambda>r. True) x
         else res = None"
        by (simp only:)
      have c: "\<not> (latest_localizable_revision d \<noteq> None \<and> is_localizable d)"
        using False by simp
      show ?thesis using fb' by (simp only: c if_False)
    qed
  qed
qed

theorem localizable_or_latest_revision_order_witness:
  "localizable_or_latest_revision ex_db ex_B True = Inr (Some ex_R2) \<and>
   is_highest_id (revisions_of ex_db (doc_id ex_B)) is_approved ex_R2"
proof -
  have run: "localizable_or_latest_revision ex_db ex_B True = Inr (Some ex_R2)"
    by (simp add: localizable_or_latest_revision_def revisions_of_def or_else_def ex_defs)
  have app: "\<exists>r \<in> set (revisions_of ex_db (doc_id ex_B)). is_approved r"
    by (simp add: revisions_of_def ex_defs)
  have nol: "\<not> (latest_localizable_revision ex_B \<noteq> None \<and> is_localizable ex_B)"
    by (simp add: ex_defs)
  from localizable_or_latest_revision_order [OF run]
  have "\<exists>x. Some ex_R2 = Some x \<and> is_highest_id (revisions_of ex_db (doc_id ex_B)) is_approved x"
    by (simp only: nol app if_False if_True)
  with run show ?thesis by simp
qed

subsection \<open>Outdated translations\<close>

lemma get_revision_Inr: "get_revision s k = Inr x \<Longrightarrow> rev_id x = Some k \<and> x \<in> set (revisions s)"
  by (auto simp: get_revision_def find_Some_iff split: option.splits)

lemma get_document_Inr: "get_document s k = Inr x \<Longrightarrow> doc_id x = Some k \<and> x \<in> set (documents s)"
  by (auto simp: get_document_def find_Some_iff split: option.splits)

text \<open>
  C4. \<open>is_outdated\<close> answers false when the translation has no parent or no current
  revision. Otherwise it answers true exactly when the parent document has an approved,
  ready-for-localization revision of significance at least the level whose id exceeds
  that of the revision the translation's current revision is based on (any such revision
  when \<open>based_on\<close> is unset). \<open>is_majorly_outdated\<close> is \<open>is_outdated\<close> at the major level.
  Stored revisions have positive keys, as an auto-incremented column gives them.
\<close>

theorem is_outdated_iff:
  assumes run: "is_outdated s d level = Inr b"
      and keys: "\<forall>r \<in> set (revisions s). \<exists>n. rev_id r = Some n \<and> 0 < n"
  shows "(parent d = None \<or> current_revision d = None \<longrightarrow> \<not> b) \<and>
         (\<forall>p c. parent d = Some p \<and> current_revision d = Some c \<longrightarrow>
            (\<exists>cur. get_revision s c = Inr cur \<and>
               (b \<longleftrightarrow> (\<exists>r \<in> set (revisions s). document r = Some p \<and>
                        is_approved r \<and> is_ready_for_localization r \<and>
                        (\<exists>g. significance r = Some g \<and> level \<le> g) \<and>
                        (\<forall>k. based_on cur = Some k \<longrightarrow> (\<exists>n. rev_id r = Some n \<and> k < n)))))) \<and>
         is_majorly_outdated cfg s d = is_outdated s d (MAJOR_SIGNIFICANCE cfg)"
proof (intro conjI allI impI)
  assume "parent d = None \<or> current_revision d = None"
  with run show "\<not> b"
    by (auto simp: is_outdated_def split: option.splits sum.splits)
next
  fix p c
  assume pc: "parent d = Some p \<and> current_revision d = Some c"
  with run obtain par cur where par: "get_document s p = Inr par"
    and cur: "get_revision s c = Inr cur"
    by (auto simp: is_outdated_def split: sum.splits)
  from par have pid: "doc_id par = Some p" by (simp add: get_document_Inr)
  have sig: "(Some level \<le> significance r) = (\<exists>g. significance r = Some g \<and> level \<le> g)" for r
    by (cases "significance r") simp_all
  have filt: "(if truthy (based_on cur) then based_on cur < rev_id r else True) =
              (\<forall>k. based_on cur = Some k \<longrightarrow> (\<exists>n. rev_id r = Some n \<and> k < n))"
    if "r \<in> set (revisions s)" for r
  proof -
    from keys that obtain n where n: "rev_id r = Some n" "0 < n" by blast
    show ?thesis
      by (cases "based_on cur") (auto simp: truthy_def n)
  qed
  from run pc par cur have
    "b = (\<exists>r \<in> set (revisions_of s (doc_id par)).
            is_approved r \<and> is_ready_for_localization r \<and> Some level \<le> significance r \<and>
            (if truthy (based_on cur) then based_on cur < rev_id r else True))"
    by (simp add: is_outdated_def Let_def)
  also have "\<dots> = (\<exists>r \<in> set (revisions s). document r = Some p \<and>
                        is_approved r \<and> is_ready_for_localization r \<and>
                        (\<exists>g. significance r = Some g \<and> level \<le> g) \<and>
                        (\<forall>k. based_on cur = Some k \<longrightarrow> (\<exists>n. rev_id r = Some n \<and> k < n)))"
    using filt by (auto simp: revisions_of_def pid sig)
  finally show "\<exists>cur. get_revision s c = Inr cur \<and>
               (b \<longleftrightarrow> (\<exists>r \<in> set (revisions s). document r = Some p \<and>
                        is_approved r \<and> is_ready_for_localization r \<and>
                        (\<exists>g. significance r = Some g \<and> level \<le> g) \<and>
                        (\<forall>k. based_on cur = Some k \<longrightarrow> (\<exists>n. rev_id r = Some n \<and> k < n))))"
    using cur by blast
next
  show "is_majorly_outdated cfg s d = is_outdated s d (MAJOR_SIGNIFICANCE cfg)"
    by (simp add: is_majorly_outdated_def)
qed

theorem is_outdated_iff_witness:
  "is_outdated ex_db ex_B (MEDIUM_SIGNIFICANCE ex_cfg) = Inr True \<and>
   is_majorly_outdated ex_cfg ex_db ex_B = Inr True \<and>
   map rev_id (revisions ex_db) = [Some 1, Some 2, Some 3] \<and>
   (\<exists>r \<in> set (revisions ex_db). document r = Some 1 \<and>
        is_approved r \<and> is_ready_for_localization r \<and>
        (\<exists>g. significance r = Some g \<and> MEDIUM_SIGNIFICANCE ex_cfg \<le> g) \<and>
        (\<forall>k. based_on ex_R2 = Some k \<longrightarrow> (\<exists>n. rev_id r = Some n \<and> k < n)))"
proof -
  have run: "is_outdated ex_db ex_B (MEDIUM_SIGNIFICANCE ex_cfg) = Inr True"
    by (simp add: is_outdated_def get_document_def get_revision_def revisions_of_def truthy_def ex_defs)
  have keys: "\<forall>r \<in> set (revisions ex_db). \<exists>n. rev_id r = Some n \<and> 0 < n"
    by (simp add: ex_defs)
  have cur: "get_revision ex_db 2 = Inr ex_R2"
    by (simp add: get_revision_def ex_defs)
  have maj: "is_majorly_outdated ex_cfg ex_db ex_B = Inr True"
    by (simp add: is_majorly_outdated_def is_outdated_def get_document_def get_revision_def
        revisions_of_def truthy_def ex_defs)
  have pc: "parent ex_B = Some 1 \<and> current_revision ex_B = Some 2"
    by (simp add: ex_defs)
  from is_outdated_iff [OF run keys, of ex_cfg] pc cur
  have "\<exists>r \<in> set (revisions ex_db). document r = Some 1 \<and>
        is_approved r \<and> is_ready_for_localization r \<and>
        (\<exists>g. significance r = Some g \<and> MEDIUM_SIGNIFICANCE ex_cfg \<le> g) \<and>
        (\<forall>k. based_on ex_R2 = Some k \<longrightarrow> (\<exists>n. rev_id r = Some n \<and> k < n))"
    by auto
  moreover have "map rev_id (revisions ex_db) = [Some 1, Some 2, Some 3]"
    by (simp add: ex_defs)
  ultimately show ?thesis using run maj by blast
qed

subsection \<open>Validation of based_on\<close>

lemma get_parent_None: "parent d = None \<Longrightarrow> get_parent s d = Inr None"
  by (simp add: get_parent_def)

lemma original_cases:
  "original s d = Inr orig \<Longrightarrow>
     (parent d = None \<and> orig = d) \<or> (\<exists>p. parent d = Some p \<and> get_document s p = Inr orig)"
  by (auto simp: original_def get_parent_def split: option.splits sum.splits)

text \<open>
  C8. A revision whose \<open>based_on\<close> is set and belongs to a document other than the
  canonical original of the revision's document fails validation: \<open>clean\<close> raises
  \<open>ValidationError\<close> and leaves on the instance the corrected value, the original's
  localizable-or-latest revision, and \<open>save\<close> raises \<open>ProgrammingError\<close> and writes
  nothing. A \<open>based_on\<close> that is null or belongs to the canonical original passes \<open>clean\<close>
  and stays as it is.
\<close>

theorem based_on_validation:
  assumes orig: "original s d = Inr orig"
  shows "(\<forall>b bo k bd sugg. based_on r = Some b \<and> get_revision s b = Inr bo \<and>
            document bo = Some k \<and> get_document s k = Inr bd \<and> doc_id bd \<noteq> doc_id orig \<and>
            localizable_or_latest_revision s orig False = Inr sugg \<longrightarrow>
            Revision_clean cfg s r (Some d) =
              (r\<lparr>based_on := (case sugg of None \<Rightarrow> None | Some x \<Rightarrow> rev_id x)\<rparr>, Some ValidationError) \<and>
            Revision_save (Suc n) cfg s r d = Some (Inl ProgrammingError)) \<and>
         (based_on r = None \<or>
          (\<exists>b bo k bd. based_on r = Some b \<and> get_revision s b = Inr bo \<and>
             document bo = Some k \<and> get_document s k = Inr bd \<and> doc_id bd = doc_id orig) \<longrightarrow>
            snd (Revision_clean cfg s r (Some d)) = None \<and>
            based_on (fst (Revision_clean cfg s r (Some d))) = based_on r)"
proof (intro conjI allI impI)
  fix b bo k bd sugg
  assume h: "based_on r = Some b \<and> get_revision s b = Inr bo \<and>
            document bo = Some k \<and> get_document s k = Inr bd \<and> doc_id bd \<noteq> doc_id orig \<and>
            localizable_or_latest_revision s orig False = Inr sugg"
  then have bic: "based_on_is_clean s r d = Inr (sugg, False)"
    using orig by (simp add: based_on_is_clean_def)
  show "Revision_clean cfg s r (Some d) =
          (r\<lparr>based_on := (case sugg of None \<Rightarrow> None | Some x \<Rightarrow> rev_id x)\<rparr>, Some ValidationError)"
    using orig bic by (simp add: Revision_clean_def)
  show "Revision_save (Suc n) cfg s r d = Some (Inl ProgrammingError)"
    using bic by simp
next
  assume h: "based_on r = None \<or>
          (\<exists>b bo k bd. based_on r = Some b \<and> get_revision s b = Inr bo \<and>
             document bo = Some k \<and> get_document s k = Inr bd \<and> doc_id bd = doc_id orig)"
  then obtain v where bic: "based_on_is_clean s r d = Inr (v, True)"
    using orig by (auto simp: based_on_is_clean_def)
  have ready: "\<exists>ok. can_be_readied_for_localization cfg r (Some d) = Inr ok"
    by (cases "is_approved r \<and> Some (TYPO_SIGNIFICANCE cfg) < significance r")
      (auto simp: can_be_readied_for_localization_def)
  then obtain ok where ok: "can_be_readied_for_localization cfg r (Some d) = Inr ok" ..
  have clean: "Revision_clean cfg s r (Some d) =
      (if \<not> ok then r\<lparr>is_ready_for_localization := False\<rparr> else r, None)"
    using orig bic ok by (simp add: Revision_clean_def)
  show "snd (Revision_clean cfg s r (Some d)) = None"
    by (simp add: clean)
  show "based_on (fst (Revision_clean cfg s r (Some d))) = based_on r"
    by (simp add: clean)
qed

theorem based_on_validation_witness:
  "original ex_db ex_B = Inr ex_A \<and>
   Revision_clean ex_cfg ex_db ex_R4 (Some ex_B) = (ex_R4\<lparr>based_on := Some 1\<rparr>, Some ValidationError) \<and>
   Revision_save (Suc 0) ex_cfg ex_db ex_R4 ex_B = Some (Inl ProgrammingError) \<and>
   snd (Revision_clean ex_cfg ex_db (ex_R4\<lparr>based_on := Some 1\<rparr>) (Some ex_B)) = None"
proof -
  have orig: "original ex_db ex_B = Inr ex_A"
    by (simp add: original_def get_parent_def get_document_def ex_defs)
  have bo: "based_on ex_R4 = Some 2 \<and> get_revision ex_db 2 = Inr ex_R2 \<and>
            document ex_R2 = Some 2 \<and> get_document ex_db 2 = Inr ex_B \<and> doc_id ex_B \<noteq> doc_id ex_A \<and>
            localizable_or_latest_revision ex_db ex_A False = Inr (Some ex_R1)"
    by (simp add: get_revision_def get_document_def localizable_or_latest_revision_def ex_R4_def ex_defs)
  have ok: "based_on (ex_R4\<lparr>based_on := Some 1\<rparr>) = Some 1 \<and> get_revision ex_db 1 = Inr ex_R1 \<and>
            document ex_R1 = Some 1 \<and> get_document ex_db 1 = Inr ex_A \<and> doc_id ex_A = doc_id ex_A"
    by (simp add: get_revision_def get_document_def ex_R4_def ex_defs)
  have r1: "rev_id ex_R1 = Some 1" by (simp add: ex_defs)
  from based_on_validation [OF orig, of ex_R4 ex_cfg 0] bo r1
  have a: "Revision_clean ex_cfg ex_db ex_R4 (Some ex_B) = (ex_R4\<lparr>based_on := Some 1\<rparr>, Some ValidationError) \<and>
   Revision_save (Suc 0) ex_cfg ex_db ex_R4 ex_B = Some (Inl ProgrammingError)"
    by fastforce
  from based_on_validation [OF orig, of "ex_R4\<lparr>based_on := Some 1\<rparr>" ex_cfg 0] ok
  have b: "snd (Revision_clean ex_cfg ex_db (ex_R4\<lparr>based_on := Some 1\<rparr>) (Some ex_B)) = None"
    by blast
  from orig a b show ?thesis by blast
qed

subsection \<open>Deleting a revision\<close>

lemma get_current_revision_Some:
  "get_current_revision s d = Inr (Some c) \<Longrightarrow> rev_id c = current_revision d \<and> current_revision d \<noteq> None"
  by (auto simp: get_current_revision_def split: option.splits sum.splits dest: get_revision_Inr)

lemma get_current_revision_None:
  "get_current_revision s d = Inr None \<Longrightarrow> current_revision d = None"
  by (auto simp: get_current_revision_def split: option.splits sum.splits)

lemma get_latest_localizable_revision_Some:
  "get_latest_localizable_revision s d = Inr (Some c) \<Longrightarrow>
   rev_id c = latest_localizable_revision d \<and> latest_localizable_revision d \<noteq> None"
  by (auto simp: get_latest_localizable_revision_def split: option.splits sum.splits dest: get_revision_Inr)

lemma get_latest_localizable_revision_None:
  "get_latest_localizable_revision s d = Inr None \<Longrightarrow> latest_localizable_revision d = None"
  by (auto simp: get_latest_localizable_revision_def split: option.splits sum.splits)

lemma current_is_deleted_iff:
  "get_current_revision s d = Inr cur \<Longrightarrow>
   (case cur of None \<Rightarrow> False | Some c \<Rightarrow> rev_id c = rev_id r) =
   (current_revision d \<noteq> None \<and> current_revision d = rev_id r)"
  by (cases cur) (auto dest: get_current_revision_Some get_current_revision_None)

lemma localizable_is_deleted_iff:
  "get_latest_localizable_revision s d = Inr cur \<Longrightarrow>
   (case cur of None \<Rightarrow> False | Some c \<Rightarrow> rev_id c = rev_id r) =
   (latest_localizable_revision d \<noteq> None \<and> latest_localizable_revision d = rev_id r)"
  by (cases cur) (auto dest: get_latest_localizable_revision_Some get_latest_localizable_revision_None)

lemma Document_update_revisions: "revisions (fst (Document_update s d f)) = revisions s"
  by (simp add: Document_update_def)

lemma Document_update_rows:
  assumes "x \<in> set (documents (fst (Document_update s d f)))" "doc_id x = doc_id d" "doc_id d \<noteq> None"
    and "\<And>y. doc_id (f y) = doc_id y"
  shows "\<exists>y \<in> set (documents s). x = f y"
proof -
  from assms(1) obtain y where y: "y \<in> set (documents s)"
    "x = (if doc_id d \<noteq> None \<and> doc_id y = doc_id d then f y else y)"
    by (auto simp: Document_update_def)
  with assms(2-4) show ?thesis by (auto split: if_splits)
qed

lemma latest_revision_highest:
  "latest_revision s d r P = Some x \<Longrightarrow>
   is_highest_id (filter (\<lambda>x. rev_id x \<noteq> rev_id r) (revisions_of s (doc_id d))) P x"
proof -
  assume "latest_revision s d r P = Some x"
  then have "latest (filter P (filter (\<lambda>x. rev_id x \<noteq> rev_id r) (revisions_of s (doc_id d)))) = Some x"
    by (simp add: latest_revision_def conj_commute)
  then show ?thesis by (rule latest_filter_highest)
qed

lemma latest_revision_None:
  "latest_revision s d r P = None \<Longrightarrow>
   \<forall>x \<in> set (filter (\<lambda>x. rev_id x \<noteq> rev_id r) (revisions_of s (doc_id d))). \<not> P x"
  by (auto simp: latest_revision_def latest_eq_None filter_empty_conv)

lemma delete_step_current_keep:
  assumes "delete_step_current cfg s1 r d = Inr (s2, d1)"
    and "\<not> (current_revision d \<noteq> None \<and> current_revision d = rev_id r)"
  shows "s2 = s1 \<and> d1 = d"
proof -
  from assms(1) obtain cur where cur: "get_current_revision s1 d = Inr cur"
    by (auto simp: delete_step_current_def split: sum.splits)
  from current_is_deleted_iff [OF cur, of r] assms(2)
  have "\<not> (case cur of None \<Rightarrow> False | Some c \<Rightarrow> rev_id c = rev_id r)" by simp
  with assms(1) cur show ?thesis by (simp add: delete_step_current_def)
qed

lemma delete_step_current_frame:
  assumes "delete_step_current cfg s1 r d = Inr (s2, d1)"
  shows "revisions s2 = revisions s1 \<and> doc_id d1 = doc_id d \<and>
         latest_localizable_revision d1 = latest_localizable_revision d"
  using assms
  by (auto simp: delete_step_current_def Document_update_def split: sum.splits if_splits option.splits)

lemma delete_step_current_repoint:
  assumes step: "delete_step_current cfg s1 r d = Inr (s2, d1)"
    and cond: "current_revision d \<noteq> None" "current_revision d = rev_id r"
  shows "(case latest_revision s1 d r is_approved of
            None \<Rightarrow> current_revision d1 = None \<and> html d1 = []
          | Some nc \<Rightarrow> current_revision d1 = rev_id nc \<and>
              (\<exists>k nd. doc_id d = Some k \<and> get_document s1 k = Inr nd \<and>
                 html d1 = wiki_to_html cfg (content nc) (doc_locale nd) (Some k))) \<and>
         (\<forall>x \<in> set (documents s2). doc_id x = doc_id d \<and> doc_id d \<noteq> None \<longrightarrow>
            current_revision x = current_revision d1 \<and> html x = html d1)"
proof -
  from step obtain cur where cur: "get_current_revision s1 d = Inr cur"
    by (auto simp: delete_step_current_def split: sum.splits)
  from current_is_deleted_iff [OF cur, of r] cond
  have c: "(case cur of None \<Rightarrow> False | Some c \<Rightarrow> rev_id c = rev_id r)" by simp
  show ?thesis
  proof (cases "latest_revision s1 d r is_approved")
    case None
    with step cur c have eq: "(s2, d1) = Document_update s1 d (\<lambda>x. x\<lparr>current_revision := None, html := []\<rparr>)"
      by (simp add: delete_step_current_def)
    then have d1: "d1 = d\<lparr>current_revision := None, html := []\<rparr>"
      and s2: "s2 = fst (Document_update s1 d (\<lambda>x. x\<lparr>current_revision := None, html := []\<rparr>))"
      by (simp_all add: Document_update_def)
    have rows: "\<forall>x \<in> set (documents s2). doc_id x = doc_id d \<and> doc_id d \<noteq> None \<longrightarrow>
            current_revision x = current_revision d1 \<and> html x = html d1"
    proof (intro ballI impI)
      fix x assume x: "x \<in> set (documents s2)" and k: "doc_id x = doc_id d \<and> doc_id d \<noteq> None"
      from Document_update_rows [of x s1 d "\<lambda>x. x\<lparr>current_revision := None, html := []\<rparr>"] x k s2
      obtain y where "x = y\<lparr>current_revision := None, html := []\<rparr>" by auto
      then show "current_revision x = current_revision d1 \<and> html x = html d1"
        by (simp add: d1)
    qed
    with None d1 show ?thesis by simp
  next
    case (Some nc)
    from latest_revision_highest [OF Some] have "nc \<in> set (revisions_of s1 (doc_id d))"
      by (simp add: is_highest_id_def)
    then have docnc: "document nc = doc_id d \<and> doc_id d \<noteq> None"
      by (cases "doc_id d") (auto simp: revisions_of_def)
    then obtain k where k: "doc_id d = Some k" "document nc = Some k" by auto
    with step cur c Some obtain nd where nd: "get_document s1 k = Inr nd"
      by (auto simp: delete_step_current_def split: sum.splits)
    let ?f = "\<lambda>x. x\<lparr>current_revision := rev_id nc, html := content_parsed cfg nc nd\<rparr>"
    from step cur c Some k nd have eq: "(s2, d1) = Document_update s1 d ?f"
      by (simp add: delete_step_current_def)
    then have d1: "d1 = ?f d" and s2: "s2 = fst (Document_update s1 d ?f)"
      by (simp_all add: Document_update_def)
    from nd have ndk: "doc_id nd = Some k" by (simp add: get_document_Inr)
    have rows: "\<forall>x \<in> set (documents s2). doc_id x = doc_id d \<and> doc_id d \<noteq> None \<longrightarrow>
            current_revision x = current_revision d1 \<and> html x = html d1"
    proof (intro ballI impI)
      fix x assume x: "x \<in> set (documents s2)" and kk: "doc_id x = doc_id d \<and> doc_id d \<noteq> None"
      from Document_update_rows [of x s1 d ?f] x kk s2
      obtain y where "x = ?f y" by auto
      then show "current_revision x = current_revision d1 \<and> html x = html d1"
        by (simp add: d1)
    qed
    from d1 k nd ndk have "current_revision d1 = rev_id nc \<and>
              (\<exists>k nd. doc_id d = Some k \<and> get_document s1 k = Inr nd \<and>
                 html d1 = wiki_to_html cfg (content nc) (doc_locale nd) (Some k))"
      by (simp add: content_parsed_def)
    with Some rows show ?thesis by simp
  qed
qed

lemma delete_step_localizable_keep:
  assumes "delete_step_localizable s2 r d1 = Inr (s3, d2)"
    and "\<not> (latest_localizable_revision d1 \<noteq> None \<and> latest_localizable_revision d1 = rev_id r)"
  shows "s3 = s2 \<and> d2 = d1"
proof -
  from assms(1) obtain llr where llr: "get_latest_localizable_revision s2 d1 = Inr llr"
    by (auto simp: delete_step_localizable_def split: sum.splits)
  from localizable_is_deleted_iff [OF llr, of r] assms(2)
  have "\<not> (case llr of None \<Rightarrow> False | Some c \<Rightarrow> rev_id c = rev_id r)" by simp
  with assms(1) llr show ?thesis by (simp add: delete_step_localizable_def)
qed

lemma Document_update_frame:
  assumes g: "\<And>y. doc_id (g y) = doc_id y \<and> current_revision (g y) = current_revision y \<and> html (g y) = html y"
    and u: "(s3, d2) = Document_update s2 d1 g"
  shows "revisions s3 = revisions s2 \<and> doc_id d2 = doc_id d1 \<and>
         current_revision d2 = current_revision d1 \<and> html d2 = html d1 \<and>
         (\<forall>x \<in> set (documents s3). \<exists>y \<in> set (documents s2).
            doc_id y = doc_id x \<and> current_revision y = current_revision x \<and> html y = html x)"
proof -
  from u have d2: "d2 = g d1"
    and docs: "documents s3 = map (\<lambda>x. if doc_id d1 \<noteq> None \<and> doc_id x = doc_id d1 then g x else x) (documents s2)"
    and revs: "revisions s3 = revisions s2"
    by (simp_all add: Document_update_def)
  have "\<exists>y \<in> set (documents s2).
          doc_id y = doc_id x \<and> current_revision y = current_revision x \<and> html y = html x"
    if "x \<in> set (documents s3)" for x
  proof -
    from that docs obtain y where y: "y \<in> set (documents s2)"
      "x = (if doc_id d1 \<noteq> None \<and> doc_id y = doc_id d1 then g y else y)" by auto
    then show ?thesis using g by (cases "doc_id d1 \<noteq> None \<and> doc_id y = doc_id d1") auto
  qed
  with d2 revs g show ?thesis by simp
qed

lemma delete_step_localizable_frame:
  assumes "delete_step_localizable s2 r d1 = Inr (s3, d2)"
  shows "revisions s3 = revisions s2 \<and> doc_id d2 = doc_id d1 \<and>
         current_revision d2 = current_revision d1 \<and> html d2 = html d1 \<and>
         (\<forall>x \<in> set (documents s3). \<exists>y \<in> set (documents s2).
            doc_id y = doc_id x \<and> current_revision y = current_revision x \<and> html y = html x)"
proof -
  from assms obtain llr where llr: "get_latest_localizable_revision s2 d1 = Inr llr"
    by (auto simp: delete_step_localizable_def split: sum.splits)
  show ?thesis
  proof (cases "case llr of None \<Rightarrow> False | Some l \<Rightarrow> rev_id l = rev_id r")
    case False
    with assms llr have "s3 = s2 \<and> d2 = d1" by (simp add: delete_step_localizable_def)
    then show ?thesis by auto
  next
    case True
    let ?g = "\<lambda>x. x\<lparr>latest_localizable_revision :=
                 (case latest_revision s2 d1 r (\<lambda>x. is_approved x \<and> is_ready_for_localization x) of
                    None \<Rightarrow> None | Some n \<Rightarrow> rev_id n)\<rparr>"
    from assms llr True have "(s3, d2) = Document_update s2 d1 ?g"
      by (simp add: delete_step_localizable_def)
    then show ?thesis by (rule Document_update_frame [rotated]) simp
  qed
qed

lemma delete_step_localizable_repoint:
  assumes step: "delete_step_localizable s2 r d1 = Inr (s3, d2)"
    and cond: "latest_localizable_revision d1 \<noteq> None" "latest_localizable_revision d1 = rev_id r"
  shows "latest_localizable_revision d2 =
           (case latest_revision s2 d1 r (\<lambda>x. is_approved x \<and> is_ready_for_localization x) of
              None \<Rightarrow> None | Some n \<Rightarrow> rev_id n) \<and>
         (\<forall>x \<in> set (documents s3). doc_id x = doc_id d1 \<and> doc_id d1 \<noteq> None \<longrightarrow>
            latest_localizable_revision x = latest_localizable_revision d2)"
proof -
  from step obtain llr where llr: "get_latest_localizable_revision s2 d1 = Inr llr"
    by (auto simp: delete_step_localizable_def split: sum.splits)
  from localizable_is_deleted_iff [OF llr, of r] cond
  have c: "(case llr of None \<Rightarrow> False | Some c \<Rightarrow> rev_id c = rev_id r)" by simp
  let ?v = "case latest_revision s2 d1 r (\<lambda>x. is_approved x \<and> is_ready_for_localization x) of
              None \<Rightarrow> None | Some n \<Rightarrow> rev_id n"
  let ?f = "\<lambda>x. x\<lparr>latest_localizable_revision := ?v\<rparr>"
  from step llr c have eq: "(s3, d2) = Document_update s2 d1 ?f"
    by (simp add: delete_step_localizable_def)
  then have d2: "d2 = ?f d1" and s3: "s3 = fst (Document_update s2 d1 ?f)"
    by (simp_all add: Document_update_def)
  have rows: "\<forall>x \<in> set (documents s3). doc_id x = doc_id d1 \<and> doc_id d1 \<noteq> None \<longrightarrow>
            latest_localizable_revision x = latest_localizable_revision d2"
  proof (intro ballI impI)
    fix x assume x: "x \<in> set (documents s3)" and kk: "doc_id x = doc_id d1 \<and> doc_id d1 \<noteq> None"
    from Document_update_rows [of x s2 d1 ?f] x kk s3
    obtain y where "x = ?f y" by auto
    then show "latest_localizable_revision x = latest_localizable_revision d2"
      by (simp add: d2)
  qed
  with d2 show ?thesis by simp
qed

lemma latest_revision_cong:
  "revisions s2 = revisions s1 \<Longrightarrow> doc_id d1 = doc_id d \<Longrightarrow>
   latest_revision s2 d1 r P = latest_revision s1 d r P"
  by (cases "doc_id d") (simp_all add: latest_revision_def revisions_of_def)

lemma cascade_fixed: "cascade_step s c = c \<Longrightarrow> cascade n s c = c"
  by (induction n) simp_all

lemma Model_delete_no_refs:
  assumes docs: "\<forall>x \<in> set (documents s). doc_id x \<noteq> None \<longrightarrow>
                   current_revision x \<noteq> Some k \<and> latest_localizable_revision x \<noteq> Some k"
    and revs: "\<forall>y \<in> set (revisions s). based_on y \<noteq> Some k"
  shows "Model_delete s k = s\<lparr>revisions := filter (\<lambda>y. rev_id y \<noteq> Some k) (revisions s)\<rparr>"
proof -
  have p0: "\<not> points_into j {}" for j
    by (simp add: points_into_def split: option.splits)
  have pk: "points_into j {k} = (j = Some k)" for j
    by (auto simp: points_into_def split: option.splits)
  have d: "filter (\<lambda>x. doc_id x \<noteq> None \<and>
                  (points_into (current_revision x) {k} \<or>
                   points_into (latest_localizable_revision x) {k} \<or>
                   points_into (parent x) {})) (documents s) = []"
    using docs by (auto simp: filter_empty_conv p0 pk)
  have r: "filter (\<lambda>y. rev_id y \<noteq> None \<and> (points_into (based_on y) {k} \<or> points_into (document y) {}))
             (revisions s) = []"
    using revs by (auto simp: filter_empty_conv p0 pk)
  have "cascade_step s ({}, {k}) = ({}, {k})"
    unfolding cascade_step_def split_conv d r by simp
  then have c: "collect_cascade s k = ({}, {k})"
    unfolding collect_cascade_def by (rule cascade_fixed)
  have f: "Set.filter (\<lambda>p. fst p \<notin> {}) (contributors s) = contributors s"
    by auto
  show ?thesis
    unfolding Model_delete_def c split_conv
    by (simp add: p0 pk f)
qed

lemma latest_revision_not_excluded:
  "latest_revision s d r P = Some x \<Longrightarrow> rev_id x \<noteq> rev_id r"
  using latest_revision_highest [of s d r P x] by (simp add: is_highest_id_def)

lemma delete_step_current_form:
  assumes st: "delete_step_current cfg s1 r d = Inr (s2, d1)" and rid: "rev_id r \<noteq> None"
  shows "(current_revision d \<noteq> rev_id r \<and> s2 = s1 \<and> d1 = d) \<or>
         (current_revision d = rev_id r \<and>
          (\<exists>v h. v \<noteq> rev_id r \<and> (s2, d1) = Document_update s1 d (\<lambda>x. x\<lparr>current_revision := v, html := h\<rparr>)))"
proof (cases "current_revision d = rev_id r")
  case False
  with delete_step_current_keep [OF st] show ?thesis by simp
next
  case True
  from st obtain cur where cur: "get_current_revision s1 d = Inr cur"
    by (auto simp: delete_step_current_def split: sum.splits)
  from current_is_deleted_iff [OF cur, of r] True rid
  have c: "(case cur of None \<Rightarrow> False | Some c \<Rightarrow> rev_id c = rev_id r)" by simp
  show ?thesis
  proof (cases "latest_revision s1 d r is_approved")
    case None
    with st cur c have "(s2, d1) = Document_update s1 d (\<lambda>x. x\<lparr>current_revision := None, html := []\<rparr>)"
      by (simp add: delete_step_current_def)
    moreover from rid have "None \<noteq> rev_id r" by (rule not_sym)
    ultimately show ?thesis using True by blast
  next
    case (Some nc)
    with st cur c obtain nd where
      "Document_update s1 d
          (\<lambda>x. x\<lparr>current_revision := rev_id nc, html := content_parsed cfg nc nd\<rparr>) = (s2, d1)"
      by (auto simp: delete_step_current_def split: sum.splits)
    then have "(s2, d1) = Document_update s1 d
          (\<lambda>x. x\<lparr>current_revision := rev_id nc, html := content_parsed cfg nc nd\<rparr>)"
      by (rule sym)
    moreover from latest_revision_not_excluded [OF Some] have "rev_id nc \<noteq> rev_id r" .
    ultimately show ?thesis using True by blast
  qed
qed

lemma delete_step_localizable_form:
  assumes st: "delete_step_localizable s2 r d1 = Inr (s3, d2)" and rid: "rev_id r \<noteq> None"
  shows "(latest_localizable_revision d1 \<noteq> rev_id r \<and> s3 = s2 \<and> d2 = d1) \<or>
         (latest_localizable_revision d1 = rev_id r \<and>
          (\<exists>v. v \<noteq> rev_id r \<and> (s3, d2) = Document_update s2 d1 (\<lambda>x. x\<lparr>latest_localizable_revision := v\<rparr>)))"
proof (cases "latest_localizable_revision d1 = rev_id r")
  case False
  with delete_step_localizable_keep [OF st] show ?thesis by simp
next
  case True
  from st obtain llr where llr: "get_latest_localizable_revision s2 d1 = Inr llr"
    by (auto simp: delete_step_localizable_def split: sum.splits)
  from localizable_is_deleted_iff [OF llr, of r] True rid
  have c: "(case llr of None \<Rightarrow> False | Some c \<Rightarrow> rev_id c = rev_id r)" by simp
  let ?v = "case latest_revision s2 d1 r (\<lambda>x. is_approved x \<and> is_ready_for_localization x) of
              None \<Rightarrow> None | Some n \<Rightarrow> rev_id n"
  from st llr c have "(s3, d2) = Document_update s2 d1 (\<lambda>x. x\<lparr>latest_localizable_revision := ?v\<rparr>)"
    by (simp add: delete_step_localizable_def)
  moreover have "?v \<noteq> rev_id r"
    using rid latest_revision_not_excluded [of s2 d1 r "\<lambda>x. is_approved x \<and> is_ready_for_localization x"]
    by (auto split: option.splits)
  ultimately show ?thesis using True by blast
qed

lemma Document_update_mem:
  assumes "(s', d') = Document_update s d g" and "x \<in> set (documents s')"
  shows "\<exists>y \<in> set (documents s).
           (doc_id d \<noteq> None \<and> doc_id y = doc_id d \<and> x = g y) \<or>
           (\<not> (doc_id d \<noteq> None \<and> doc_id y = doc_id d) \<and> x = y)"
  using assms by (auto simp: Document_update_def)

lemma Document_update_keys:
  assumes "(s', d') = Document_update s d g" and "\<And>y. doc_id (g y) = doc_id y"
  shows "map doc_id (documents s') = map doc_id (documents s) \<and> contributors s' = contributors s \<and>
         d' = g d"
proof -
  have m: "map doc_id (map (\<lambda>x. if c x then g x else x) xs) = map doc_id xs"
    for c and xs :: "document list"
    by (induction xs) (simp_all add: assms(2))
  from assms(1) have "documents s' =
      map (\<lambda>x. if doc_id d \<noteq> None \<and> doc_id x = doc_id d then g x else x) (documents s)"
    and "contributors s' = contributors s" and "d' = g d"
    by (simp_all add: Document_update_def)
  then show ?thesis by (simp only: m simp_thms)
qed

lemma delete_steps_no_refs:
  assumes st1: "delete_step_current cfg s1 r d = Inr (s2, d1)"
    and st2: "delete_step_localizable s2 r d1 = Inr (s3, d2)"
    and rid: "rev_id r \<noteq> None"
    and only: "\<forall>x \<in> set (documents s1).
                 current_revision x = rev_id r \<or> latest_localizable_revision x = rev_id r \<longrightarrow>
                 doc_id x = doc_id d"
    and row: "\<forall>x \<in> set (documents s1). doc_id x = doc_id d \<longrightarrow>
                current_revision x = current_revision d \<and>
                latest_localizable_revision x = latest_localizable_revision d"
  shows "map doc_id (documents s3) = map doc_id (documents s1) \<and> contributors s3 = contributors s1 \<and>
         (\<forall>x \<in> set (documents s3). doc_id x \<noteq> None \<longrightarrow>
            current_revision x \<noteq> rev_id r \<and> latest_localizable_revision x \<noteq> rev_id r)"
proof -
  note form1 = delete_step_current_form [OF st1 rid]
  note form2 = delete_step_localizable_form [OF st2 rid]
  have f1: "map doc_id (documents s2) = map doc_id (documents s1) \<and> contributors s2 = contributors s1 \<and>
      doc_id d1 = doc_id d \<and> latest_localizable_revision d1 = latest_localizable_revision d"
  proof -
    from form1 show ?thesis
    proof
      assume "current_revision d \<noteq> rev_id r \<and> s2 = s1 \<and> d1 = d"
      then show ?thesis by simp
    next
      assume "current_revision d = rev_id r \<and>
          (\<exists>v h. v \<noteq> rev_id r \<and> (s2, d1) = Document_update s1 d (\<lambda>x. x\<lparr>current_revision := v, html := h\<rparr>))"
      then obtain v h where u: "(s2, d1) = Document_update s1 d (\<lambda>x. x\<lparr>current_revision := v, html := h\<rparr>)"
        by blast
      from Document_update_keys [OF u] show ?thesis by simp
    qed
  qed
  have two: "current_revision x \<noteq> rev_id r \<and>
      (latest_localizable_revision x = rev_id r \<longrightarrow>
         doc_id x = doc_id d \<and> latest_localizable_revision d = rev_id r)"
    if x: "x \<in> set (documents s2)" and kx: "doc_id x \<noteq> None" for x
  proof -
    from form1 show ?thesis
    proof
      assume a: "current_revision d \<noteq> rev_id r \<and> s2 = s1 \<and> d1 = d"
      with x have x1: "x \<in> set (documents s1)" by simp
      from only x1 row a show ?thesis by metis
    next
      assume "current_revision d = rev_id r \<and>
          (\<exists>v h. v \<noteq> rev_id r \<and> (s2, d1) = Document_update s1 d (\<lambda>x. x\<lparr>current_revision := v, html := h\<rparr>))"
      then obtain v h where v: "v \<noteq> rev_id r"
        and u: "(s2, d1) = Document_update s1 d (\<lambda>x. x\<lparr>current_revision := v, html := h\<rparr>)"
        by blast
      from Document_update_mem [OF u x] obtain y where y: "y \<in> set (documents s1)"
        and alt: "(doc_id d \<noteq> None \<and> doc_id y = doc_id d \<and> x = y\<lparr>current_revision := v, html := h\<rparr>) \<or>
           (\<not> (doc_id d \<noteq> None \<and> doc_id y = doc_id d) \<and> x = y)"
        by blast
      from alt show ?thesis
      proof
        assume b: "doc_id d \<noteq> None \<and> doc_id y = doc_id d \<and> x = y\<lparr>current_revision := v, html := h\<rparr>"
        with row y have "latest_localizable_revision y = latest_localizable_revision d" by blast
        with b v show ?thesis by simp
      next
        assume b: "\<not> (doc_id d \<noteq> None \<and> doc_id y = doc_id d) \<and> x = y"
        with kx have "doc_id y \<noteq> doc_id d" by auto
        with only y have "current_revision y \<noteq> rev_id r \<and> latest_localizable_revision y \<noteq> rev_id r"
          by blast
        with b show ?thesis by simp
      qed
    qed
  qed
  have f2: "map doc_id (documents s3) = map doc_id (documents s2) \<and> contributors s3 = contributors s2"
  proof -
    from form2 show ?thesis
    proof
      assume "latest_localizable_revision d1 \<noteq> rev_id r \<and> s3 = s2 \<and> d2 = d1"
      then show ?thesis by simp
    next
      assume "latest_localizable_revision d1 = rev_id r \<and>
          (\<exists>v. v \<noteq> rev_id r \<and> (s3, d2) = Document_update s2 d1 (\<lambda>x. x\<lparr>latest_localizable_revision := v\<rparr>))"
      then obtain v where u: "(s3, d2) = Document_update s2 d1 (\<lambda>x. x\<lparr>latest_localizable_revision := v\<rparr>)"
        by blast
      from Document_update_keys [OF u] show ?thesis by simp
    qed
  qed
  have three: "current_revision x \<noteq> rev_id r \<and> latest_localizable_revision x \<noteq> rev_id r"
    if x: "x \<in> set (documents s3)" and kx: "doc_id x \<noteq> None" for x
  proof -
    from form2 show ?thesis
    proof
      assume a: "latest_localizable_revision d1 \<noteq> rev_id r \<and> s3 = s2 \<and> d2 = d1"
      with x have "x \<in> set (documents s2)" by simp
      from two [OF this kx] a f1 show ?thesis by auto
    next
      assume "latest_localizable_revision d1 = rev_id r \<and>
          (\<exists>v. v \<noteq> rev_id r \<and> (s3, d2) = Document_update s2 d1 (\<lambda>x. x\<lparr>latest_localizable_revision := v\<rparr>))"
      then obtain v where v: "v \<noteq> rev_id r"
        and u: "(s3, d2) = Document_update s2 d1 (\<lambda>x. x\<lparr>latest_localizable_revision := v\<rparr>)"
        by blast
      from Document_update_mem [OF u x] obtain y where y: "y \<in> set (documents s2)"
        and alt: "(doc_id d1 \<noteq> None \<and> doc_id y = doc_id d1 \<and> x = y\<lparr>latest_localizable_revision := v\<rparr>) \<or>
           (\<not> (doc_id d1 \<noteq> None \<and> doc_id y = doc_id d1) \<and> x = y)"
        by blast
      from alt show ?thesis
      proof
        assume b: "doc_id d1 \<noteq> None \<and> doc_id y = doc_id d1 \<and> x = y\<lparr>latest_localizable_revision := v\<rparr>"
        then have "doc_id y \<noteq> None" by simp
        from two [OF y this] b v show ?thesis by simp
      next
        assume b: "\<not> (doc_id d1 \<noteq> None \<and> doc_id y = doc_id d1) \<and> x = y"
        with kx have ky: "doc_id y \<noteq> None" and ne: "doc_id y \<noteq> doc_id d1" by auto
        from two [OF y ky] ne f1 b show ?thesis by auto
      qed
    qed
  qed
  from f1 f2 three show ?thesis by simp
qed

lemma cascade_step_bounds:
  "fst c \<subseteq> fst (cascade_step s c) \<and> snd c \<subseteq> snd (cascade_step s c) \<and>
   fst (cascade_step s c) \<subseteq> fst c \<union> fst (stored_keys s) \<and>
   snd (cascade_step s c) \<subseteq> snd c \<union> snd (stored_keys s)"
  by (cases c) (auto simp: cascade_step_def stored_keys_def)

lemma cascade_step_uncollected:
  assumes "cascade_step s c \<noteq> c"
  shows "uncollected s (cascade_step s c) < uncollected s c"
proof -
  let ?c' = "cascade_step s c"
  let ?D = "fst (stored_keys s)" and ?R = "snd (stored_keys s)"
  note b = cascade_step_bounds [of c s]
  have fin: "finite ?D" "finite ?R" by (simp_all add: stored_keys_def)
  have le1: "card (?D - fst ?c') \<le> card (?D - fst c)"
    using b fin by (intro card_mono) auto
  have le2: "card (?R - snd ?c') \<le> card (?R - snd c)"
    using b fin by (intro card_mono) auto
  from assms have "fst ?c' \<noteq> fst c \<or> snd ?c' \<noteq> snd c"
    by (auto simp: prod_eq_iff)
  then show ?thesis
  proof
    assume "fst ?c' \<noteq> fst c"
    with b obtain k where k: "k \<in> fst ?c'" "k \<notin> fst c" "k \<in> ?D" by blast
    then have "?D - fst ?c' \<subset> ?D - fst c" using b by blast
    with fin have "card (?D - fst ?c') < card (?D - fst c)"
      by (intro psubset_card_mono) auto
    with le2 show ?thesis by (simp add: uncollected_def)
  next
    assume "snd ?c' \<noteq> snd c"
    with b obtain k where k: "k \<in> snd ?c'" "k \<notin> snd c" "k \<in> ?R" by blast
    then have "?R - snd ?c' \<subset> ?R - snd c" using b by blast
    with fin have "card (?R - snd ?c') < card (?R - snd c)"
      by (intro psubset_card_mono) auto
    with le1 show ?thesis by (simp add: uncollected_def)
  qed
qed

lemma cascade_reaches_fixed:
  "uncollected s c \<le> n \<Longrightarrow> cascade_step s (cascade n s c) = cascade n s c"
proof (induction n arbitrary: c)
  case 0
  show ?case
  proof (rule ccontr)
    assume "cascade_step s (cascade 0 s c) \<noteq> cascade 0 s c"
    then have "cascade_step s c \<noteq> c" by simp
    from cascade_step_uncollected [OF this] 0 show False by simp
  qed
next
  case (Suc n)
  show ?case
  proof (cases "cascade_step s c = c")
    case True
    then have "cascade (Suc n) s c = c" by (rule cascade_fixed)
    with True show ?thesis by simp
  next
    case False
    from cascade_step_uncollected [OF False] Suc.prems
    have "uncollected s (cascade_step s c) \<le> n" by simp
    from Suc.IH [OF this] show ?thesis by simp
  qed
qed

lemma collect_cascade_closed:
  "cascade_step s (collect_cascade s k) = collect_cascade s k"
proof -
  have "card (fst (stored_keys s) - {}) \<le> length (documents s)"
    using card_image_le [of "set (documents s)" "\<lambda>x. key_of (doc_id x)"] card_length [of "documents s"]
    by (simp add: stored_keys_def)
  moreover have "card (snd (stored_keys s) - {k}) \<le> length (revisions s)"
  proof -
    have "card (snd (stored_keys s) - {k}) \<le> card (snd (stored_keys s))"
      by (intro card_mono) (auto simp: stored_keys_def)
    also have "\<dots> \<le> length (revisions s)"
      using card_image_le [of "set (revisions s)" "\<lambda>y. key_of (rev_id y)"] card_length [of "revisions s"]
      by (simp add: stored_keys_def)
    finally show ?thesis .
  qed
  ultimately have "uncollected s ({}, {k}) \<le> length (documents s) + length (revisions s)"
    by (simp add: uncollected_def)
  then show ?thesis unfolding collect_cascade_def by (rule cascade_reaches_fixed)
qed

text \<open>
  When another document still has the revision as its current one, the delete takes that
  document with it, and the document's revisions and contributor rows: here the
  translation B, whose row points to R3 of A.
\<close>

lemma ex_cascade_run:
  "Revision_delete ex_cfg (ex_db3\<lparr>documents := [ex_A3, ex_B\<lparr>current_revision := Some 3\<rparr>]\<rparr>) ex_R3 ex_A3 =
     Inr (\<lparr>documents = [ex_A3_after], revisions = [ex_R1], contributors = {(1, 7), (1, 9)}\<rparr>, ex_A3_after)"
  by (auto simp: Revision_delete_def delete_step_current_def delete_step_localizable_def
        get_current_revision_def get_latest_localizable_revision_def get_revision_def
        get_document_def latest_revision_def revisions_of_def Document_update_def
        content_parsed_def Model_delete_def collect_cascade_def cascade_step_def points_into_def
        key_of_def ex_A3_def ex_db3_def ex_A3_after_def ex_db3_after_def ex_defs)

text \<open>
  C3. Deleting revision R of document D, where D's instance is in step with its row and no
  other document has R as its current or latest localizable revision: every other
  revision based on R gets a null \<open>based_on\<close>, R's row goes and no other row does. If R
  was D's current revision, the current revision
  becomes the approved revision of highest id among the remaining ones of D, and the
  cached html its rendering; with no approved revision left, the current revision is
  null and the html empty. If R was D's latest localizable revision, that field becomes
  the highest-id remaining revision that is approved and ready for localization, or
  null. Both hold of the instance and of D's stored row.
\<close>

theorem Revision_delete_repoints:
  assumes del: "Revision_delete cfg s r d = Inr (s', d')"
    and only: "\<forall>x \<in> set (documents s).
                 current_revision x = rev_id r \<or> latest_localizable_revision x = rev_id r \<longrightarrow>
                 doc_id x = doc_id d"
    and row: "\<forall>x \<in> set (documents s). doc_id x = doc_id d \<longrightarrow>
                current_revision x = current_revision d \<and>
                latest_localizable_revision x = latest_localizable_revision d"
  shows "revisions s' =
           map (\<lambda>x. if based_on x = rev_id r then x\<lparr>based_on := None\<rparr> else x)
             (filter (\<lambda>x. rev_id x \<noteq> rev_id r) (revisions s)) \<and>
         (current_revision d = rev_id r \<longrightarrow>
            (if \<exists>x \<in> set (revisions_of s' (doc_id d)). is_approved x
             then \<exists>x k nd. is_highest_id (revisions_of s' (doc_id d)) is_approved x \<and>
                    current_revision d' = rev_id x \<and> doc_id d = Some k \<and> get_document s k = Inr nd \<and>
                    html d' = wiki_to_html cfg (content x) (doc_locale nd) (Some k)
             else current_revision d' = None \<and> html d' = [])) \<and>
         (current_revision d \<noteq> rev_id r \<longrightarrow>
            current_revision d' = current_revision d \<and> html d' = html d) \<and>
         (latest_localizable_revision d = rev_id r \<longrightarrow>
            (if \<exists>x \<in> set (revisions_of s' (doc_id d)). is_approved x \<and> is_ready_for_localization x
             then \<exists>x. is_highest_id (revisions_of s' (doc_id d))
                         (\<lambda>x. is_approved x \<and> is_ready_for_localization x) x \<and>
                    latest_localizable_revision d' = rev_id x
             else latest_localizable_revision d' = None)) \<and>
         (latest_localizable_revision d \<noteq> rev_id r \<longrightarrow>
            latest_localizable_revision d' = latest_localizable_revision d) \<and>
         (\<forall>x \<in> set (documents s'). doc_id x = doc_id d \<and> doc_id d \<noteq> None \<longrightarrow>
            (current_revision d = rev_id r \<longrightarrow>
               current_revision x = current_revision d' \<and> html x = html d') \<and>
            (latest_localizable_revision d = rev_id r \<longrightarrow>
               latest_localizable_revision x = latest_localizable_revision d')) \<and>
         map doc_id (documents s') = map doc_id (documents s) \<and> contributors s' = contributors s"
proof -
  define f :: "revision \<Rightarrow> revision" where "f = (\<lambda>x. if based_on x \<noteq> None \<and> based_on x = rev_id r then x\<lparr>based_on := None\<rparr> else x)"
  define s1 where "s1 = s\<lparr>revisions := map f (revisions s)\<rparr>"
  from del obtain s2 d1 s3 k where st1: "delete_step_current cfg s1 r d = Inr (s2, d1)"
    and st2: "delete_step_localizable s2 r d1 = Inr (s3, d')"
    and k: "rev_id r = Some k"
    and del': "s' = Model_delete s3 k"
    unfolding Revision_delete_def Let_def s1_def f_def
    by (auto split: sum.splits option.splits)
  from k have rid: "rev_id r \<noteq> None" by simp
  have only1: "\<forall>x \<in> set (documents s1).
                 current_revision x = rev_id r \<or> latest_localizable_revision x = rev_id r \<longrightarrow>
                 doc_id x = doc_id d"
    using only by (simp add: s1_def)
  have row1: "\<forall>x \<in> set (documents s1). doc_id x = doc_id d \<longrightarrow>
                current_revision x = current_revision d \<and>
                latest_localizable_revision x = latest_localizable_revision d"
    using row by (simp add: s1_def)
  note nr = delete_steps_no_refs [OF st1 st2 rid only1 row1]
  have based: "\<forall>y \<in> set (revisions s3). based_on y \<noteq> Some k"
  proof -
    have "revisions s3 = revisions s1"
      using delete_step_current_frame [OF st1] delete_step_localizable_frame [OF st2] by simp
    then show ?thesis by (auto simp: s1_def f_def k)
  qed
  from nr have refs: "\<forall>x \<in> set (documents s3). doc_id x \<noteq> None \<longrightarrow>
      current_revision x \<noteq> Some k \<and> latest_localizable_revision x \<noteq> Some k"
    by (simp add: k)
  have s': "s' = s3\<lparr>revisions := filter (\<lambda>x. rev_id x \<noteq> rev_id r) (revisions s3)\<rparr>"
    unfolding del' Model_delete_no_refs [OF refs based] by (simp add: k)
  have c7: "map doc_id (documents s') = map doc_id (documents s) \<and> contributors s' = contributors s"
    using nr by (simp add: s' s1_def)
  note fr1_all = delete_step_current_frame [OF st1]
  note fr2_all = delete_step_localizable_frame [OF st2]
  note fr1_rev = fr1_all [THEN conjunct1]
  note fr1_id = fr1_all [THEN conjunct2, THEN conjunct1]
  note fr1_llr = fr1_all [THEN conjunct2, THEN conjunct2]
  note fr2_rev = fr2_all [THEN conjunct1]
  note fr2_id = fr2_all [THEN conjunct2, THEN conjunct1]
  note fr2_cur = fr2_all [THEN conjunct2, THEN conjunct2, THEN conjunct1]
  note fr2_html = fr2_all [THEN conjunct2, THEN conjunct2, THEN conjunct2, THEN conjunct1]
  note fr2_rows = fr2_all [THEN conjunct2, THEN conjunct2, THEN conjunct2, THEN conjunct2]
  have f_eq: "f = (\<lambda>x. if based_on x = rev_id r then x\<lparr>based_on := None\<rparr> else x)"
    using rid by (auto simp: f_def fun_eq_iff)
  have f_id [simp]: "rev_id (f x) = rev_id x" "document (f x) = document x" for x
    by (simp_all add: f_def)
  have revs': "revisions s' = filter (\<lambda>x. rev_id x \<noteq> rev_id r) (revisions s1)"
    using s' fr1_rev fr2_rev by simp
  have c1: "revisions s' =
           map (\<lambda>x. if based_on x = rev_id r then x\<lparr>based_on := None\<rparr> else x)
             (filter (\<lambda>x. rev_id x \<noteq> rev_id r) (revisions s))"
    unfolding revs' s1_def f_eq [symmetric] by (simp add: filter_map comp_def)
  have remaining: "filter (\<lambda>x. rev_id x \<noteq> rev_id r) (revisions_of s1 (doc_id d)) = revisions_of s' (doc_id d)"
    by (cases "doc_id d") (auto simp: revisions_of_def revs' conj_commute)
  have docs1: "documents s1 = documents s" by (simp add: s1_def)
  have gd: "get_document s1 k = get_document s k" for k
    by (simp add: get_document_def docs1)
  have c2: "current_revision d = rev_id r \<longrightarrow>
            (if \<exists>x \<in> set (revisions_of s' (doc_id d)). is_approved x
             then \<exists>x k nd. is_highest_id (revisions_of s' (doc_id d)) is_approved x \<and>
                    current_revision d' = rev_id x \<and> doc_id d = Some k \<and> get_document s k = Inr nd \<and>
                    html d' = wiki_to_html cfg (content x) (doc_locale nd) (Some k)
             else current_revision d' = None \<and> html d' = [])"
  proof
    assume eq: "current_revision d = rev_id r"
    with rid have ne: "current_revision d \<noteq> None" by simp
    note rp = delete_step_current_repoint [OF st1 ne eq, THEN conjunct1]
    show "if \<exists>x \<in> set (revisions_of s' (doc_id d)). is_approved x
             then \<exists>x k nd. is_highest_id (revisions_of s' (doc_id d)) is_approved x \<and>
                    current_revision d' = rev_id x \<and> doc_id d = Some k \<and> get_document s k = Inr nd \<and>
                    html d' = wiki_to_html cfg (content x) (doc_locale nd) (Some k)
             else current_revision d' = None \<and> html d' = []"
    proof (cases "latest_revision s1 d r is_approved")
      case None
      from latest_revision_None [OF None] have neg: "\<not> (\<exists>x \<in> set (revisions_of s' (doc_id d)). is_approved x)"
        by (simp add: remaining)
      from rp None fr2_cur fr2_html have "current_revision d' = None \<and> html d' = []" by simp
      then show ?thesis by (simp only: neg if_False)
    next
      case (Some nc)
      from latest_revision_highest [OF Some]
      have hi: "is_highest_id (revisions_of s' (doc_id d)) is_approved nc"
        by (simp add: remaining)
      then have ex: "\<exists>x \<in> set (revisions_of s' (doc_id d)). is_approved x"
        by (auto simp: is_highest_id_def)
      from rp Some fr2_cur fr2_html have "current_revision d' = rev_id nc \<and>
              (\<exists>k nd. doc_id d = Some k \<and> get_document s k = Inr nd \<and>
                 html d' = wiki_to_html cfg (content nc) (doc_locale nd) (Some k))"
        by (simp add: gd)
      with hi have "\<exists>x k nd. is_highest_id (revisions_of s' (doc_id d)) is_approved x \<and>
                    current_revision d' = rev_id x \<and> doc_id d = Some k \<and> get_document s k = Inr nd \<and>
                    html d' = wiki_to_html cfg (content x) (doc_locale nd) (Some k)" by blast
      then show ?thesis by (simp only: ex if_True)
    qed
  qed
  have c3: "current_revision d \<noteq> rev_id r \<longrightarrow>
            current_revision d' = current_revision d \<and> html d' = html d"
  proof
    assume "current_revision d \<noteq> rev_id r"
    then have "\<not> (current_revision d \<noteq> None \<and> current_revision d = rev_id r)" by simp
    from delete_step_current_keep [OF st1 this] have "d1 = d" by simp
    with fr2_cur fr2_html show "current_revision d' = current_revision d \<and> html d' = html d"
      by simp
  qed
  have lr: "latest_revision s2 d1 r P = latest_revision s1 d r P" for P
    by (rule latest_revision_cong [OF fr1_rev fr1_id])
  have c4: "latest_localizable_revision d = rev_id r \<longrightarrow>
            (if \<exists>x \<in> set (revisions_of s' (doc_id d)). is_approved x \<and> is_ready_for_localization x
             then \<exists>x. is_highest_id (revisions_of s' (doc_id d))
                         (\<lambda>x. is_approved x \<and> is_ready_for_localization x) x \<and>
                    latest_localizable_revision d' = rev_id x
             else latest_localizable_revision d' = None)"
  proof
    assume eq: "latest_localizable_revision d = rev_id r"
    with rid fr1_llr have ne: "latest_localizable_revision d1 \<noteq> None"
      and eq1: "latest_localizable_revision d1 = rev_id r" by simp_all
    note rp = delete_step_localizable_repoint [OF st2 ne eq1, THEN conjunct1, unfolded lr]
    let ?P = "\<lambda>x. is_approved x \<and> is_ready_for_localization x"
    show "if \<exists>x \<in> set (revisions_of s' (doc_id d)). is_approved x \<and> is_ready_for_localization x
             then \<exists>x. is_highest_id (revisions_of s' (doc_id d)) ?P x \<and>
                    latest_localizable_revision d' = rev_id x
             else latest_localizable_revision d' = None"
    proof (cases "latest_revision s1 d r ?P")
      case None
      from latest_revision_None [OF None]
      have neg: "\<not> (\<exists>x \<in> set (revisions_of s' (doc_id d)). is_approved x \<and> is_ready_for_localization x)"
        by (simp add: remaining)
      from rp None have "latest_localizable_revision d' = None" by simp
      then show ?thesis by (simp only: neg if_False)
    next
      case (Some n)
      from latest_revision_highest [OF Some]
      have hi: "is_highest_id (revisions_of s' (doc_id d)) ?P n"
        by (simp add: remaining)
      then have ex: "\<exists>x \<in> set (revisions_of s' (doc_id d)). is_approved x \<and> is_ready_for_localization x"
        by (auto simp: is_highest_id_def)
      from rp Some have "latest_localizable_revision d' = rev_id n" by simp
      with hi have "\<exists>x. is_highest_id (revisions_of s' (doc_id d)) ?P x \<and>
                    latest_localizable_revision d' = rev_id x" by blast
      then show ?thesis by (simp only: ex if_True)
    qed
  qed
  have c5: "latest_localizable_revision d \<noteq> rev_id r \<longrightarrow>
            latest_localizable_revision d' = latest_localizable_revision d"
  proof
    assume "latest_localizable_revision d \<noteq> rev_id r"
    with fr1_llr have "\<not> (latest_localizable_revision d1 \<noteq> None \<and> latest_localizable_revision d1 = rev_id r)"
      by simp
    from delete_step_localizable_keep [OF st2 this] have "d' = d1" by simp
    with fr1_llr show "latest_localizable_revision d' = latest_localizable_revision d"
      by simp
  qed
  have docs': "documents s' = documents s3" by (simp add: s')
  have c6: "\<forall>x \<in> set (documents s'). doc_id x = doc_id d \<and> doc_id d \<noteq> None \<longrightarrow>
            (current_revision d = rev_id r \<longrightarrow>
               current_revision x = current_revision d' \<and> html x = html d') \<and>
            (latest_localizable_revision d = rev_id r \<longrightarrow>
               latest_localizable_revision x = latest_localizable_revision d')"
  proof (intro ballI impI conjI)
    fix x assume x: "x \<in> set (documents s')" and k: "doc_id x = doc_id d \<and> doc_id d \<noteq> None"
    {
      assume eq: "current_revision d = rev_id r"
      with rid have ne: "current_revision d \<noteq> None" by simp
      from fr2_rows x docs' obtain y where y: "y \<in> set (documents s2)" "doc_id y = doc_id x"
        "current_revision y = current_revision x" "html y = html x" by auto
      from delete_step_current_repoint [OF st1 ne eq, THEN conjunct2] y k
      have "current_revision y = current_revision d1 \<and> html y = html d1" by auto
      with y fr2_cur fr2_html show "current_revision x = current_revision d'" "html x = html d'" by simp_all
    }
    {
      assume eq: "latest_localizable_revision d = rev_id r"
      with rid fr1_llr have ne: "latest_localizable_revision d1 \<noteq> None"
        and eq1: "latest_localizable_revision d1 = rev_id r" by simp_all
      from delete_step_localizable_repoint [OF st2 ne eq1, THEN conjunct2] x docs' k fr1_id
      show "latest_localizable_revision x = latest_localizable_revision d'" by auto
    }
  qed
  show ?thesis
    by (rule conjI [OF c1 conjI [OF c2 conjI [OF c3 conjI [OF c4 conjI [OF c5 conjI [OF c6 c7]]]]]])
qed

theorem Revision_delete_repoints_witness:
  "Revision_delete ex_cfg ex_db3 ex_R3 ex_A3 = Inr (ex_db3_after, ex_A3_after) \<and>
   current_revision ex_A3 = rev_id ex_R3 \<and>
   latest_localizable_revision ex_A3 = rev_id ex_R3 \<and>
   is_highest_id (revisions_of ex_db3_after (doc_id ex_A3)) is_approved ex_R1 \<and>
   current_revision ex_A3_after = rev_id ex_R1 \<and>
   html ex_A3_after = wiki_to_html ex_cfg (content ex_R1) (doc_locale ex_A3) (Some 1) \<and>
   revisions ex_db3_after =
     map (\<lambda>x. if based_on x = rev_id ex_R3 then x\<lparr>based_on := None\<rparr> else x)
       (filter (\<lambda>x. rev_id x \<noteq> rev_id ex_R3) (revisions ex_db3))"
proof -
  have run: "Revision_delete ex_cfg ex_db3 ex_R3 ex_A3 = Inr (ex_db3_after, ex_A3_after)"
    by (auto simp: Revision_delete_def delete_step_current_def delete_step_localizable_def
        get_current_revision_def get_latest_localizable_revision_def get_revision_def
        get_document_def latest_revision_def revisions_of_def Document_update_def
        content_parsed_def Model_delete_def collect_cascade_def cascade_step_def points_into_def
        key_of_def ex_A3_def ex_db3_def ex_A3_after_def ex_db3_after_def ex_defs)
  have cur: "current_revision ex_A3 = rev_id ex_R3" "latest_localizable_revision ex_A3 = rev_id ex_R3"
    by (simp_all add: ex_A3_def ex_defs)
  have only: "\<forall>x \<in> set (documents ex_db3).
      current_revision x = rev_id ex_R3 \<or> latest_localizable_revision x = rev_id ex_R3 \<longrightarrow>
      doc_id x = doc_id ex_A3"
    by (simp add: ex_A3_def ex_db3_def ex_defs)
  have row: "\<forall>x \<in> set (documents ex_db3). doc_id x = doc_id ex_A3 \<longrightarrow>
      current_revision x = current_revision ex_A3 \<and>
      latest_localizable_revision x = latest_localizable_revision ex_A3"
    by (simp add: ex_A3_def ex_db3_def ex_defs)
  note spec = Revision_delete_repoints [OF run only row]
  have revs: "revisions ex_db3_after =
     map (\<lambda>x. if based_on x = rev_id ex_R3 then x\<lparr>based_on := None\<rparr> else x)
       (filter (\<lambda>x. rev_id x \<noteq> rev_id ex_R3) (revisions ex_db3))"
    by (rule spec [THEN conjunct1])
  have hi: "is_highest_id (revisions_of ex_db3_after (doc_id ex_A3)) is_approved ex_R1"
    by (simp add: is_highest_id_def revisions_of_def ex_A3_def ex_db3_after_def ex_defs)
  have rest: "current_revision ex_A3_after = rev_id ex_R1 \<and>
   html ex_A3_after = wiki_to_html ex_cfg (content ex_R1) (doc_locale ex_A3) (Some 1)"
    by (simp add: ex_A3_after_def ex_A3_def ex_defs)
  from run cur revs hi rest show ?thesis by simp
qed

subsection \<open>Names for a redirect\<close>

lemma digit_inj: "n < 10 \<Longrightarrow> m < 10 \<Longrightarrow> digit n = digit m \<Longrightarrow> n = m"
proof -
  assume n: "n < 10" and m: "m < 10" and eq: "digit n = digit m"
  from eq have "of_char (char_of (48 + n) :: char) = (of_char (char_of (48 + m) :: char) :: nat)"
    by (simp add: digit_def)
  with n m show "n = m" by (simp add: of_char_of)
qed

lemma decimal_nonempty: "decimal n \<noteq> []"
  by (subst decimal.simps) simp

lemma decimal_inj: "decimal n = decimal m \<Longrightarrow> n = m"
proof (induction n arbitrary: m rule: decimal.induct)
  case (1 n)
  show ?case
  proof (cases "n < 10")
    case True
    show ?thesis
    proof (cases "m < 10")
      case mt: True
      from "1.prems" True mt have "digit n = digit m"
        by (simp add: decimal.simps [of n] decimal.simps [of m])
      with True mt show ?thesis by (rule digit_inj)
    next
      case mf: False
      from "1.prems" True mf have "[digit n] = decimal (m div 10) @ [digit (m mod 10)]"
        by (simp add: decimal.simps [of n] decimal.simps [of m])
      then have "decimal (m div 10) = []" by simp
      with decimal_nonempty show ?thesis by blast
    qed
  next
    case False
    show ?thesis
    proof (cases "m < 10")
      case mt: True
      from "1.prems" False mt have "decimal (n div 10) @ [digit (n mod 10)] = [digit m]"
        by (simp add: decimal.simps [of n] decimal.simps [of m])
      then have "decimal (n div 10) = []" by simp
      with decimal_nonempty show ?thesis by blast
    next
      case mf: False
      from "1.prems" False mf
      have "decimal (n div 10) @ [digit (n mod 10)] = decimal (m div 10) @ [digit (m mod 10)]"
        by (simp add: decimal.simps [of n] decimal.simps [of m])
      then have a: "decimal (n div 10) = decimal (m div 10)" and b: "digit (n mod 10) = digit (m mod 10)"
        by simp_all
      from "1.IH" [OF False a] have q: "n div 10 = m div 10" .
      from b have r: "n mod 10 = m mod 10" by (intro digit_inj) simp_all
      from q r show ?thesis by (metis div_mult_mod_eq)
    qed
  qed
qed

lemma concat_map_segments:
  "\<forall>x \<in> set t. length (f x) = length (g x) \<Longrightarrow> concat (map f t) = concat (map g t) \<Longrightarrow>
   \<forall>x \<in> set t. f x = g x"
  by (induction t) auto

lemma length_format_template:
  "length (format_template t old i) =
     length (concat (map (format_tok old 0) (filter (\<lambda>x. x \<noteq> Number) t))) +
     length (filter (\<lambda>x. x = Number) t) * length (decimal i)"
proof (induction t)
  case Nil
  then show ?case by (simp add: format_template_def)
next
  case (Cons x t)
  then show ?case by (cases x) (simp_all add: format_template_def)
qed

lemma format_template_inj:
  assumes num: "Number \<in> set t" and eq: "format_template t old i = format_template t old j"
  shows "i = j"
proof -
  from num have pos: "0 < length (filter (\<lambda>x. x = Number) t)"
    by (simp add: filter_empty_conv)
  from eq have "length (format_template t old i) = length (format_template t old j)" by simp
  then have "length (filter (\<lambda>x. x = Number) t) * length (decimal i) =
             length (filter (\<lambda>x. x = Number) t) * length (decimal j)"
    by (simp add: length_format_template)
  with pos have len: "length (decimal i) = length (decimal j)" by simp
  have "\<forall>x \<in> set t. length (format_tok old i x) = length (format_tok old j x)"
  proof
    fix x show "length (format_tok old i x) = length (format_tok old j x)"
      by (cases x) (simp_all add: len)
  qed
  moreover from eq have "concat (map (format_tok old i) t) = concat (map (format_tok old j) t)"
    by (simp add: format_template_def)
  ultimately have "\<forall>x \<in> set t. format_tok old i x = format_tok old j x"
    by (rule concat_map_segments)
  with num have "decimal i = decimal j" by force
  then show ?thesis by (rule decimal_inj)
qed

lemma length_concat_map_mem: "x \<in> set t \<Longrightarrow> length (f x) \<le> length (concat (map f t))"
  by (induction t) auto

lemma length_concat_map_two:
  "x \<in> set t \<Longrightarrow> y \<in> set t \<Longrightarrow> x \<noteq> y \<Longrightarrow> length (f x) + length (f y) \<le> length (concat (map f t))"
proof (induction t)
  case Nil
  then show ?case by simp
next
  case (Cons z t)
  then show ?case
    using length_concat_map_mem [of x t f] length_concat_map_mem [of y t f]
    by (cases "z = x"; cases "z = y") auto
qed

lemma format_template_longer:
  assumes "Old \<in> set t" "Number \<in> set t"
  shows "format_template t old i \<noteq> old"
proof -
  from length_concat_map_two [OF assms, of "format_tok old i"]
  have "length old + length (decimal i) \<le> length (format_template t old i)"
    by (simp add: format_template_def)
  moreover have "0 < length (decimal i)" using decimal_nonempty [of i] by simp
  ultimately show ?thesis by auto
qed

lemma collides_finite: "finite {v. collides s d a v}"
proof -
  have "{v. collides s d a v} \<subseteq> (\<lambda>x. getattr x a) ` set (documents s)"
    by (auto simp: collides_def)
  then show ?thesis by (rule finite_subset) simp
qed

lemma free_suffix_exists:
  assumes "Number \<in> set t"
  shows "\<exists>i\<ge>1. \<not> collides s d a (format_template t old i)"
proof (rule ccontr)
  assume "\<not> ?thesis"
  then have all: "\<forall>i\<ge>1. collides s d a (format_template t old i)" by simp
  let ?f = "\<lambda>i. format_template t old i"
  have inj: "inj_on ?f {1..}" using format_template_inj [OF assms] by (auto simp: inj_on_def)
  from all have "?f ` {1..} \<subseteq> {v. collides s d a v}" by auto
  then have "finite (?f ` {1..})" using collides_finite by (rule finite_subset)
  then have "finite {1::nat..}" using inj by (rule finite_imageD)
  then show False by (simp add: infinite_Ici)
qed

lemma unique_attr_loop_finds:
  assumes "\<not> collides s d a (format_template t (getattr d a) k)" "i \<le> k"
    "\<forall>j. i \<le> j \<and> j < k \<longrightarrow> collides s d a (format_template t (getattr d a) j)"
  shows "unique_attr_loop s d a t i = Some (format_template t (getattr d a) k)"
  using assms
proof (induction "k - i" arbitrary: i)
  case 0
  then have "i = k" by simp
  with "0.prems" show ?case by (subst unique_attr_loop.simps) simp
next
  case (Suc n)
  then have lt: "i < k" by simp
  with Suc.prems have c: "collides s d a (format_template t (getattr d a) i)" by simp
  have "unique_attr_loop s d a t (i + 1) = Some (format_template t (getattr d a) k)"
    using Suc.hyps Suc.prems lt by (intro Suc.hyps(1)) auto
  with c show ?case by (subst unique_attr_loop.simps) simp
qed

text \<open>
  C7. For a template with the tokens \<open>old\<close> and \<open>number\<close>, as the method's docstring
  requires, \<open>_attr_for_redirect\<close> returns the tracked original value of the attribute
  when the instance has one; otherwise it returns: the template formatted with the
  current value and the smallest number, from 1 on, whose result collides with no
  document of the locale, and that result is never the current value itself.
\<close>

theorem attr_for_redirect_value:
  assumes old: "Old \<in> set t" and num: "Number \<in> set t"
  shows "(\<forall>orig. old_attr d a = Some orig \<longrightarrow> attr_for_redirect s d a t = Some orig) \<and>
         (old_attr d a = None \<longrightarrow>
            (\<exists>i\<ge>1. attr_for_redirect s d a t = Some (format_template t (getattr d a) i) \<and>
                    \<not> collides s d a (format_template t (getattr d a) i) \<and>
                    (\<forall>j. 1 \<le> j \<and> j < i \<longrightarrow> collides s d a (format_template t (getattr d a) j)) \<and>
                    format_template t (getattr d a) i \<noteq> getattr d a))"
proof (intro conjI allI impI)
  fix orig assume "old_attr d a = Some orig"
  then show "attr_for_redirect s d a t = Some orig"
    by (simp add: attr_for_redirect_def)
next
  assume none: "old_attr d a = None"
  let ?free = "\<lambda>i. 1 \<le> i \<and> \<not> collides s d a (format_template t (getattr d a) i)"
  define k where "k = (LEAST i. ?free i)"
  from free_suffix_exists [OF num, of s d a "getattr d a"] obtain i0 where "?free i0" by blast
  then have k: "?free k" unfolding k_def by (rule LeastI)
  have least: "collides s d a (format_template t (getattr d a) j)" if "1 \<le> j" "j < k" for j
  proof (rule ccontr)
    assume "\<not> collides s d a (format_template t (getattr d a) j)"
    with that have "?free j" by simp
    then have "k \<le> j" unfolding k_def by (rule Least_le)
    with that show False by simp
  qed
  from k least have "unique_attr_loop s d a t 1 = Some (format_template t (getattr d a) k)"
    by (intro unique_attr_loop_finds) auto
  with none have "attr_for_redirect s d a t = Some (format_template t (getattr d a) k)"
    by (simp add: attr_for_redirect_def unique_attr_def)
  moreover have "format_template t (getattr d a) k \<noteq> getattr d a"
    using old num by (rule format_template_longer)
  ultimately show "\<exists>i\<ge>1. attr_for_redirect s d a t = Some (format_template t (getattr d a) i) \<and>
                    \<not> collides s d a (format_template t (getattr d a) i) \<and>
                    (\<forall>j. 1 \<le> j \<and> j < i \<longrightarrow> collides s d a (format_template t (getattr d a) j)) \<and>
                    format_template t (getattr d a) i \<noteq> getattr d a"
    using k least by blast
qed

theorem attr_for_redirect_value_witness:
  "Old \<in> set (REDIRECT_SLUG ex_cfg) \<and> Number \<in> set (REDIRECT_SLUG ex_cfg) \<and>
   old_attr ex_A Slug = None \<and>
   attr_for_redirect ex_db7 ex_A Slug (REDIRECT_SLUG ex_cfg) = Some ''foo-redirect-2'' \<and>
   collides ex_db7 ex_A Slug ''foo-redirect-1'' \<and>
   attr_for_redirect ex_db7 ex_A Slug (REDIRECT_SLUG ex_cfg) \<noteq> Some (getattr ex_A Slug) \<and>
   attr_for_redirect ex_db7 (ex_A\<lparr>old_slug := Some ''fu''\<rparr>) Slug (REDIRECT_SLUG ex_cfg) = Some ''fu''"
proof -
  have toks: "Old \<in> set (REDIRECT_SLUG ex_cfg)" "Number \<in> set (REDIRECT_SLUG ex_cfg)"
    by (simp_all add: ex_defs)
  have none: "old_attr ex_A Slug = None" by (simp add: ex_defs)
  have d1: "decimal 1 = ''1''" and d2: "decimal 2 = ''2''"
    by (simp_all add: decimal.simps digit_def char_of_def bit_0)
  have c1: "collides ex_db7 ex_A Slug ''foo-redirect-1''"
    by (simp add: collides_def ex_db7_def ex_C_def ex_defs)
  have run: "attr_for_redirect ex_db7 ex_A Slug (REDIRECT_SLUG ex_cfg) = Some ''foo-redirect-2''"
  proof -
    let ?T = "REDIRECT_SLUG ex_cfg"
    have f1: "format_template ?T (getattr ex_A Slug) 1 = ''foo-redirect-1''"
      and f2: "format_template ?T (getattr ex_A Slug) 2 = ''foo-redirect-2''"
      using d1 by (simp_all add: format_template_def d2 ex_defs)
    have c2: "\<not> collides ex_db7 ex_A Slug ''foo-redirect-2''"
      by (simp add: collides_def ex_db7_def ex_C_def ex_defs)
    have below: "\<forall>j. 1 \<le> j \<and> j < 2 \<longrightarrow> collides ex_db7 ex_A Slug (format_template ?T (getattr ex_A Slug) j)"
    proof (intro allI impI)
      fix j :: nat assume "1 \<le> j \<and> j < 2"
      then have "j = 1" by simp
      with c1 f1 show "collides ex_db7 ex_A Slug (format_template ?T (getattr ex_A Slug) j)" by simp
    qed
    from c2 f2 have "\<not> collides ex_db7 ex_A Slug (format_template ?T (getattr ex_A Slug) 2)" by simp
    from unique_attr_loop_finds [OF this _ below]
    have "unique_attr_loop ex_db7 ex_A Slug ?T 1 = Some (format_template ?T (getattr ex_A Slug) 2)"
      by simp
    then have "unique_attr_loop ex_db7 ex_A Slug ?T 1 = Some ''foo-redirect-2''"
      by (simp only: f2)
    with none show ?thesis
      by (simp add: attr_for_redirect_def unique_attr_def)
  qed
  note spec = attr_for_redirect_value [OF toks, of ex_A Slug ex_db7]
  from spec none have ne: "attr_for_redirect ex_db7 ex_A Slug (REDIRECT_SLUG ex_cfg) \<noteq> Some (getattr ex_A Slug)"
    by auto
  have "old_attr (ex_A\<lparr>old_slug := Some ''fu''\<rparr>) Slug = Some ''fu''" by simp
  with attr_for_redirect_value [OF toks, of "ex_A\<lparr>old_slug := Some ''fu''\<rparr>" Slug ex_db7]
  have reuse: "attr_for_redirect ex_db7 (ex_A\<lparr>old_slug := Some ''fu''\<rparr>) Slug (REDIRECT_SLUG ex_cfg) = Some ''fu''"
    by blast
  from toks none run c1 ne reuse show ?thesis by blast
qed

subsection \<open>Saving a document: errors and the unrenamed case\<close>

lemma raise_if_collides_error:
  "raise_if_collides s d a exc = Inl e \<Longrightarrow>
   e = exc \<and> (doc_id d = None \<or> old_attr d a \<noteq> None) \<and> collides s d a (getattr d a)"
  by (auto simp: raise_if_collides_def split: if_splits)

lemma get_parent_error: "get_parent s d = Inl e \<Longrightarrow> e = DoesNotExist"
  by (auto simp: get_parent_def get_document_def split: option.splits sum.splits)

lemma clean_is_localizable_error:
  "clean_is_localizable cfg s d = Inl e \<Longrightarrow> e = ValidationError \<or> e = DoesNotExist"
  by (auto simp: clean_is_localizable_def Let_def split: sum.splits if_splits dest: get_parent_error)

lemma ensure_inherited_attr_error:
  "ensure_inherited_attr s d a = Inl e \<Longrightarrow> e = DoesNotExist"
  by (auto simp: ensure_inherited_attr_def split: sum.splits option.splits if_splits dest: get_parent_error)

lemma clean_category_error:
  "clean_category cfg s d = Inl e \<Longrightarrow> e = ValidationError \<or> e = DoesNotExist"
  by (auto simp: clean_category_def split: sum.splits if_splits
      dest: get_parent_error ensure_inherited_attr_error)

lemma Document_save_row_error:
  assumes "Document_save_row cfg s d = Inl e"
  shows "(e = SlugCollision \<and> (doc_id d = None \<or> old_slug d \<noteq> None)) \<or>
         (e = TitleCollision \<and> (doc_id d = None \<or> old_title d \<noteq> None)) \<or>
         e = ValidationError \<or> e = DoesNotExist"
proof -
  let ?d = "d\<lparr>is_template := startswith (title d) (TEMPLATE_TITLE_PREFIX cfg)\<rparr>"
  show ?thesis
  proof (cases "raise_if_collides s ?d Slug SlugCollision")
    case (Inl x)
    with assms have "e = x" by (simp add: Document_save_row_def Let_def)
    with raise_if_collides_error [OF Inl] show ?thesis by simp
  next
    case slug_ok: (Inr u)
    show ?thesis
    proof (cases "raise_if_collides s ?d Title TitleCollision")
      case (Inl x)
      with assms slug_ok have "e = x" by (simp add: Document_save_row_def Let_def)
      with raise_if_collides_error [OF Inl] show ?thesis by simp
    next
      case title_ok: (Inr v)
      show ?thesis
      proof (cases "clean_is_localizable cfg s ?d")
        case (Inl x)
        with assms slug_ok title_ok have "e = x" by (simp add: Document_save_row_def Let_def)
        with clean_is_localizable_error [OF Inl] show ?thesis by simp
      next
        case loc: (Inr d1)
        show ?thesis
        proof (cases "ensure_inherited_attr s d1 Is_archived")
          case (Inl x)
          with assms slug_ok title_ok loc have "e = x" by (simp add: Document_save_row_def Let_def)
          with ensure_inherited_attr_error [OF Inl] show ?thesis by simp
        next
          case arch: (Inr p)
          obtain s1 d2 where p: "p = (s1, d2)" by (cases p)
          show ?thesis
          proof (cases "clean_category cfg s1 d2")
            case (Inl x)
            with assms slug_ok title_ok loc arch p have "e = x"
              by (simp add: Document_save_row_def Let_def)
            with clean_category_error [OF Inl] show ?thesis by simp
          next
            case (Inr q)
            with assms slug_ok title_ok loc arch p show ?thesis
              by (simp add: Document_save_row_def Let_def split: prod.splits)
          qed
        qed
      qed
    qed
  qed
qed

lemma get_current_revision_error: "get_current_revision s d = Inl e \<Longrightarrow> e = DoesNotExist"
  by (auto simp: get_current_revision_def get_revision_def split: option.splits sum.splits)

lemma Document_save_row_old:
  assumes "Document_save_row cfg s d = Inr (s', d')"
  shows "old_slug d' = old_slug d \<and> old_title d' = old_title d"
proof -
  let ?d = "d\<lparr>is_template := startswith (title d) (TEMPLATE_TITLE_PREFIX cfg)\<rparr>"
  from assms obtain d1 s1 d2 s2 d3 where
    loc: "clean_is_localizable cfg s ?d = Inr d1"
    and arch: "ensure_inherited_attr s d1 Is_archived = Inr (s1, d2)"
    and cat: "clean_category cfg s1 d2 = Inr (s2, d3)"
    and row: "save_document_row s2 d3 = (s', d')"
    by (auto simp: Document_save_row_def Let_def split: sum.splits)
  from loc have 1: "old_slug d1 = old_slug d \<and> old_title d1 = old_title d"
    by (auto simp: clean_is_localizable_def Let_def split: sum.splits if_splits)
  have inh: "old_slug (inherit a p x) = old_slug x \<and> old_title (inherit a p x) = old_title x" for a p x
    by (cases a) simp_all
  from arch have 2: "old_slug d2 = old_slug d1 \<and> old_title d2 = old_title d1"
    by (auto simp: ensure_inherited_attr_def inh split: sum.splits option.splits if_splits)
  from cat have 3: "old_slug d3 = old_slug d2 \<and> old_title d3 = old_title d2"
    by (auto simp: clean_category_def ensure_inherited_attr_def inh split: sum.splits option.splits if_splits)
  from row have 4: "old_slug d' = old_slug d3 \<and> old_title d' = old_title d3"
    by (auto simp: save_document_row_def Let_def split: option.splits if_splits)
  from 1 2 3 4 show ?thesis by simp
qed

lemma Document_save_unrenamed:
  assumes "old_slug d = None" "old_title d = None"
  shows "Document_save (Suc n) cfg s d =
           (case Document_save_row cfg s d of
              Inl e \<Rightarrow> Some (Inl e)
            | Inr (s3, d4) \<Rightarrow>
                (case get_current_revision s3 d4 of
                   Inl e \<Rightarrow> Some (Inl e)
                 | Inr cur \<Rightarrow> Some (Inr (s3, d4))))"
proof (cases "Document_save_row cfg s d")
  case (Inl e)
  then show ?thesis by simp
next
  case (Inr p)
  obtain s3 d4 where p: "p = (s3, d4)" by (cases p)
  from Document_save_row_old [OF Inr [unfolded p]] assms
  have "old_slug d4 = None" "old_title d4 = None" by simp_all
  with Inr p show ?thesis by (simp split: sum.splits option.splits)
qed

text \<open>
  C10. Saving a document that is already stored and whose title and slug carry no
  tracked old value returns, and never with \<open>SlugCollision\<close> or \<open>TitleCollision\<close>: the
  check of \<open>_raise_if_collides\<close> is skipped, although the document's own row answers the
  collision query for its slug and its title.
\<close>

theorem save_unchanged_never_collides:
  assumes "doc_id d \<noteq> None" "old_slug d = None" "old_title d = None"
  shows "(\<exists>res. Document_save (Suc n) cfg s d = Some res \<and>
            res \<noteq> Inl SlugCollision \<and> res \<noteq> Inl TitleCollision) \<and>
         (\<forall>row \<in> set (documents s). doc_locale row = doc_locale d \<and> slug row = slug d \<and> title row = title d \<longrightarrow>
            collides s d Slug (slug d) \<and> collides s d Title (title d))"
proof
  note eq = Document_save_unrenamed [OF assms(2,3), of n cfg s]
  show "\<exists>res. Document_save (Suc n) cfg s d = Some res \<and>
            res \<noteq> Inl SlugCollision \<and> res \<noteq> Inl TitleCollision"
  proof (cases "Document_save_row cfg s d")
    case (Inl e)
    from Document_save_row_error [OF Inl] assms
    have "e \<noteq> SlugCollision \<and> e \<noteq> TitleCollision" by auto
    moreover from eq Inl have "Document_save (Suc n) cfg s d = Some (Inl e)" by simp
    ultimately show ?thesis by simp
  next
    case (Inr p)
    obtain s3 d4 where p: "p = (s3, d4)" by (cases p)
    show ?thesis
    proof (cases "get_current_revision s3 d4")
      case (Inl e)
      then have "e = DoesNotExist" by (rule get_current_revision_error)
      moreover from eq Inl Inr p have "Document_save (Suc n) cfg s d = Some (Inl e)" by simp
      ultimately show ?thesis by simp
    next
      case cur: (Inr c)
      with eq Inr p have "Document_save (Suc n) cfg s d = Some (Inr (s3, d4))" by simp
      then show ?thesis by simp
    qed
  qed
  show "\<forall>row \<in> set (documents s). doc_locale row = doc_locale d \<and> slug row = slug d \<and> title row = title d \<longrightarrow>
            collides s d Slug (slug d) \<and> collides s d Title (title d)"
    by (auto simp: collides_def)
qed

lemmas save_row_defs = Document_save_row_def raise_if_collides_def clean_is_localizable_def
  ensure_inherited_attr_def clean_category_def save_document_row_def get_parent_def
  get_document_def translations_of_def startswith_def stored_def truthy_def collides_def Let_def

theorem save_unchanged_never_collides_witness:
  "doc_id ex_A \<noteq> None \<and> old_slug ex_A = None \<and> old_title ex_A = None \<and>
   collides ex_db ex_A Slug (slug ex_A) \<and> collides ex_db ex_A Title (title ex_A) \<and>
   Document_save (Suc 0) ex_cfg ex_db ex_A = Some (Inr (ex_db, ex_A))"
proof -
  have h: "doc_id ex_A \<noteq> None" "old_slug ex_A = None" "old_title ex_A = None"
    by (simp_all add: ex_defs)
  have row: "ex_A \<in> set (documents ex_db)" by (simp add: ex_defs)
  from save_unchanged_never_collides [OF h, of 0 ex_cfg ex_db, THEN conjunct2] row
  have c: "collides ex_db ex_A Slug (slug ex_A) \<and> collides ex_db ex_A Title (title ex_A)"
    by blast
  have r: "Document_save_row ex_cfg ex_db ex_A = Inr (ex_db, ex_A)"
    by (simp add: save_row_defs ex_defs)
  have g: "get_current_revision ex_db ex_A = Inr (Some ex_R1)"
    by (simp add: get_current_revision_def get_revision_def ex_defs)
  have "Document_save (Suc 0) ex_cfg ex_db ex_A = Some (Inr (ex_db, ex_A))"
    unfolding Document_save_unrenamed [OF h(2,3)] by (simp add: r g)
  with h c show ?thesis by simp
qed

subsection \<open>Rename tracking\<close>















lemma doc_id_inherit: "doc_id (inherit a p x) = doc_id x"
  by (cases a) simp_all

lemma ensure_inherited_attr_frame:
  assumes "ensure_inherited_attr s d a = Inr (s1, d2)"
  shows "revisions s1 = revisions s \<and> contributors s1 = contributors s \<and>
         map doc_id (documents s1) = map doc_id (documents s) \<and> doc_id d2 = doc_id d"
proof -
  have m: "map doc_id (map (\<lambda>x. if parent x = doc_id d then inherit a d x else x) xs) = map doc_id xs" for xs
    by (induction xs) (simp_all add: doc_id_inherit)
  from assms show ?thesis
    by (auto simp: ensure_inherited_attr_def m doc_id_inherit split: sum.splits option.splits if_splits)
qed

lemma clean_category_frame:
  assumes "clean_category cfg s d = Inr (s1, d2)"
  shows "revisions s1 = revisions s \<and> contributors s1 = contributors s \<and>
         map doc_id (documents s1) = map doc_id (documents s) \<and> doc_id d2 = doc_id d"
proof -
  from assms have "ensure_inherited_attr s d Category = Inr (s1, d2)"
    by (auto simp: clean_category_def split: sum.splits if_splits)
  then show ?thesis by (rule ensure_inherited_attr_frame)
qed

lemma save_document_row_frame:
  assumes "save_document_row s d = (s', d')"
  shows "revisions s' = revisions s \<and> contributors s' = contributors s \<and>
         (map doc_id (documents s') = map doc_id (documents s) \<or>
          map doc_id (documents s') = map doc_id (documents s) @ [doc_id d'])"
proof (cases "doc_id d")
  case None
  with assms show ?thesis by (auto simp: save_document_row_def Let_def stored_def)
next
  case (Some k)
  have m: "map doc_id (map (\<lambda>x. if doc_id x = Some k then stored d else x) xs) = map doc_id xs" for xs
    by (induction xs) (simp_all add: stored_def Some)
  from assms Some show ?thesis
    by (auto simp: save_document_row_def m stored_def split: if_splits)
qed

lemma Document_save_row_frame:
  assumes "Document_save_row cfg s d = Inr (s', d')"
  shows "revisions s' = revisions s \<and> contributors s' = contributors s \<and>
         (map doc_id (documents s') = map doc_id (documents s) \<or>
          map doc_id (documents s') = map doc_id (documents s) @ [doc_id d'])"
proof -
  let ?d = "d\<lparr>is_template := startswith (title d) (TEMPLATE_TITLE_PREFIX cfg)\<rparr>"
  from assms obtain d1 s1 d2 s2 d3 where
    arch: "ensure_inherited_attr s d1 Is_archived = Inr (s1, d2)"
    and cat: "clean_category cfg s1 d2 = Inr (s2, d3)"
    and row: "save_document_row s2 d3 = (s', d')"
    by (auto simp: Document_save_row_def Let_def split: sum.splits)
  from ensure_inherited_attr_frame [OF arch] clean_category_frame [OF cat]
    save_document_row_frame [OF row]
  show ?thesis by simp
qed



subsection \<open>What a successful save has done\<close>

lemma collides_is_template [simp]: "collides s (d\<lparr>is_template := b\<rparr>) a v = collides s d a v"
  by (simp add: collides_def)

lemma Document_save_row_new:
  assumes run: "Document_save_row cfg s nd = Inr (s4, doc)"
    and new: "doc_id nd = None" and root: "parent nd = None"
  shows "\<not> collides s nd Slug (slug nd) \<and> \<not> collides s nd Title (title nd) \<and>
         category nd \<in> set (map fst (CATEGORIES cfg)) \<and>
         doc = nd\<lparr>doc_id := Some (next_doc_id s),
                  is_template := startswith (title nd) (TEMPLATE_TITLE_PREFIX cfg),
                  is_localizable := (is_localizable nd \<and> doc_locale nd = WIKI_DEFAULT_LANGUAGE cfg)\<rparr> \<and>
         s4 = s\<lparr>documents := documents s @ [stored doc]\<rparr>"
proof -
  let ?d = "nd\<lparr>is_template := startswith (title nd) (TEMPLATE_TITLE_PREFIX cfg)\<rparr>"
  let ?d1 = "?d\<lparr>is_localizable := (is_localizable nd \<and> doc_locale nd = WIKI_DEFAULT_LANGUAGE cfg)\<rparr>"
  from run have c: "\<not> collides s nd Slug (slug nd) \<and> \<not> collides s nd Title (title nd)"
    by (auto simp: Document_save_row_def Let_def raise_if_collides_def new split: sum.splits if_splits)
  then have r1: "raise_if_collides s ?d Slug SlugCollision = Inr ()"
    and r2: "raise_if_collides s ?d Title TitleCollision = Inr ()"
    by (simp_all add: raise_if_collides_def)
  have loc: "clean_is_localizable cfg s ?d = Inr ?d1"
    by (cases "doc_locale nd = WIKI_DEFAULT_LANGUAGE cfg")
      (simp_all add: clean_is_localizable_def Let_def get_parent_def root new truthy_def)
  have arch: "ensure_inherited_attr s ?d1 Is_archived = Inr (s, ?d1)"
    by (simp add: ensure_inherited_attr_def get_parent_def root new truthy_def)
  have cat: "clean_category cfg s ?d1 =
      (if category nd \<notin> set (map fst (CATEGORIES cfg)) then Inl ValidationError else Inr (s, ?d1))"
    by (simp add: clean_category_def ensure_inherited_attr_def get_parent_def root new truthy_def)
  from run r1 r2 loc arch cat have ok: "category nd \<in> set (map fst (CATEGORIES cfg))"
    and row: "save_document_row s ?d1 = (s4, doc)"
    by (auto simp: Document_save_row_def Let_def split: if_splits)
  from row have "doc = ?d1\<lparr>doc_id := Some (next_doc_id s)\<rparr> \<and> s4 = s\<lparr>documents := documents s @ [stored doc]\<rparr>"
    by (auto simp: save_document_row_def Let_def new)
  with c ok show ?thesis by simp
qed

lemma fold_max_ge: "a \<le> fold (\<lambda>x m. max (f x) m) xs (a::nat)"
proof (induction xs arbitrary: a)
  case Nil
  show ?case by simp
next
  case (Cons x xs)
  have "a \<le> max (f x) a" by simp
  also have "\<dots> \<le> fold (\<lambda>x m. max (f x) m) xs (max (f x) a)" by (rule Cons.IH)
  finally show ?case by simp
qed

lemma fold_max_mem: "x \<in> set xs \<Longrightarrow> f x \<le> fold (\<lambda>x m. max (f x) m) xs (a::nat)"
proof (induction xs arbitrary: a)
  case Nil
  then show ?case by simp
next
  case (Cons y xs)
  show ?case
  proof (cases "x = y")
    case True
    have "f y \<le> max (f y) a" by simp
    also have "\<dots> \<le> fold (\<lambda>x m. max (f x) m) xs (max (f y) a)" by (rule fold_max_ge)
    finally show ?thesis using True by simp
  next
    case False
    with Cons.prems have "x \<in> set xs" by simp
    from Cons.IH [OF this] show ?thesis by simp
  qed
qed

lemma next_doc_id_fresh: "x \<in> set (documents s) \<Longrightarrow> doc_id x \<noteq> Some (next_doc_id s)"
proof
  assume x: "x \<in> set (documents s)" and eq: "doc_id x = Some (next_doc_id s)"
  from fold_max_mem [OF x, of "\<lambda>x. key_of (doc_id x)" 0]
  have "key_of (doc_id x) < next_doc_id s" by (simp add: next_doc_id_def)
  with eq show False by (simp add: key_of_def)
qed

lemma next_rev_id_fresh: "x \<in> set (revisions s) \<Longrightarrow> rev_id x \<noteq> Some (next_rev_id s)"
proof
  assume x: "x \<in> set (revisions s)" and eq: "rev_id x = Some (next_rev_id s)"
  from fold_max_mem [OF x, of "\<lambda>x. key_of (rev_id x)" 0]
  have "key_of (rev_id x) < next_rev_id s" by (simp add: next_rev_id_def)
  with eq show False by (simp add: key_of_def)
qed

lemma Document_save_row_stored_root:
  assumes run: "Document_save_row cfg s e = Inr (s', e')"
    and key: "doc_id e = Some k" "k \<noteq> 0" and root: "parent e = None"
    and old: "old_slug e = None" "old_title e = None"
    and nl: "\<not> is_localizable e"
    and ex: "\<exists>x \<in> set (documents s). doc_id x = Some k"
  shows "(\<forall>x \<in> set (documents s). parent x \<noteq> Some k) \<and>
         e' = e\<lparr>is_template := startswith (title e) (TEMPLATE_TITLE_PREFIX cfg)\<rparr> \<and>
         s' = s\<lparr>documents := map (\<lambda>x. if doc_id x = Some k then stored e' else x) (documents s)\<rparr>"
proof -
  let ?d = "e\<lparr>is_template := startswith (title e) (TEMPLATE_TITLE_PREFIX cfg)\<rparr>"
  have r1: "raise_if_collides s ?d Slug SlugCollision = Inr ()"
    and r2: "raise_if_collides s ?d Title TitleCollision = Inr ()"
    by (simp_all add: raise_if_collides_def key old)
  have same: "?d\<lparr>is_localizable := False\<rparr> = ?d" using nl by simp
  have loc: "clean_is_localizable cfg s ?d =
      (if translations_of s (Some k) \<noteq> [] then Inl ValidationError else Inr ?d)"
    using nl by (simp add: clean_is_localizable_def Let_def get_parent_def root key truthy_def same)
  from run r1 r2 loc have nochild: "translations_of s (Some k) = []"
    by (auto simp: Document_save_row_def Let_def split: if_splits)
  then have np: "\<forall>x \<in> set (documents s). parent x \<noteq> Some k"
    by (simp add: translations_of_def filter_empty_conv)
  then have idm: "map (\<lambda>x. if parent x = Some k then inherit a ?d x else x) (documents s) = documents s" for a
    by (intro map_idI) simp
  have arch: "ensure_inherited_attr s ?d Is_archived = Inr (s, ?d)"
    by (simp add: ensure_inherited_attr_def get_parent_def root key truthy_def idm)
  have cat: "clean_category cfg s ?d =
      (if category e \<notin> set (map fst (CATEGORIES cfg)) then Inl ValidationError else Inr (s, ?d))"
    by (simp add: clean_category_def ensure_inherited_attr_def get_parent_def root key truthy_def idm)
  from run r1 r2 loc nochild arch cat have row: "save_document_row s ?d = (s', e')"
    by (auto simp: Document_save_row_def Let_def split: if_splits)
  with ex have "e' = ?d \<and> s' = s\<lparr>documents := map (\<lambda>x. if doc_id x = Some k then stored e' else x) (documents s)\<rparr>"
    by (auto simp: save_document_row_def key)
  with np show ?thesis by simp
qed

lemma Document_save_unrenamed_Inr:
  assumes old: "old_slug d = None" "old_title d = None"
    and run: "Document_save n cfg s d = Some (Inr (s', d'))"
  shows "Document_save_row cfg s d = Inr (s', d')"
proof (cases n)
  case 0
  with run show ?thesis by simp
next
  case (Suc m)
  from run [unfolded Suc Document_save_unrenamed [OF old]]
  show ?thesis by (auto split: sum.splits)
qed

lemma Revision_save_redirect:
  assumes run: "Revision_save n cfg s rr doc = Some (Inr (s', r', d'))"
    and rr: "rev_id rr = None" "based_on rr = None" "is_approved rr" "\<not> is_ready_for_localization rr"
    and key: "doc_id doc = Some k" "k \<noteq> 0"
    and root: "parent doc = None" and nocur: "current_revision doc = None"
    and old: "old_slug doc = None" "old_title doc = None"
    and nl: "\<not> is_localizable doc"
    and ex: "\<exists>x \<in> set (documents s). doc_id x = Some k"
  shows "r' = rr\<lparr>rev_id := Some (next_rev_id s)\<rparr> \<and>
         d' = doc\<lparr>html := wiki_to_html cfg (content rr) (doc_locale doc) (Some k),
                  current_revision := Some (next_rev_id s),
                  is_template := startswith (title doc) (TEMPLATE_TITLE_PREFIX cfg)\<rparr> \<and>
         documents s' = map (\<lambda>x. if doc_id x = Some k then stored d' else x) (documents s) \<and>
         revisions s' = revisions s @ [r'] \<and>
         (\<forall>x \<in> set (documents s). parent x \<noteq> Some k)"
proof (cases n)
  case 0
  with run show ?thesis by simp
next
  case (Suc m)
  let ?r1 = "rr\<lparr>rev_id := Some (next_rev_id s)\<rparr>"
  let ?s1 = "s\<lparr>revisions := revisions s @ [?r1]\<rparr>"
  have clean: "based_on_is_clean s rr doc = Inr (None, True)"
    by (simp add: based_on_is_clean_def original_def get_parent_def root rr)
  have row: "save_revision_row s rr = (?s1, ?r1)"
    by (simp add: save_revision_row_def Let_def rr)
  have gc: "get_current_revision ?s1 doc = Inr None"
    by (simp add: get_current_revision_def nocur)
  have br: "Revision_save_branch ?s1 ?r1 doc = Inr Update_current"
    by (simp add: Revision_save_branch_def gc rr)
  let ?s2 = "?s1\<lparr>contributors := contributors ?s1 \<union> (\<lambda>u. (k, u)) ` new_contributors ?s1 doc None\<rparr>"
  let ?d3 = "doc\<lparr>html := content_parsed cfg ?r1 doc, current_revision := rev_id ?r1\<rparr>"
  from run [unfolded Suc] clean row br gc key rr
  obtain s3 d4 where inner: "Document_save m cfg ?s2 ?d3 = Some (Inr (s3, d4))"
    and res: "s' = s3" "r' = ?r1" "d' = d4"
    by (auto simp: Let_def split: option.splits sum.splits)
  have "Document_save_row cfg ?s2 ?d3 = Inr (s3, d4)"
    using inner by (intro Document_save_unrenamed_Inr [where n = m]) (simp_all add: old)
  from Document_save_row_stored_root [OF this, of k] key root old nl ex
  have "(\<forall>x \<in> set (documents s). parent x \<noteq> Some k) \<and>
        d4 = ?d3\<lparr>is_template := startswith (title doc) (TEMPLATE_TITLE_PREFIX cfg)\<rparr> \<and>
        s3 = ?s2\<lparr>documents := map (\<lambda>x. if doc_id x = Some k then stored d4 else x) (documents s)\<rparr>"
    by simp
  with res key show ?thesis by (simp add: content_parsed_def)
qed

lemma collides_locale: "doc_locale a = doc_locale b \<Longrightarrow> collides s a x v = collides s b x v"
  by (simp add: collides_def)

lemma Document_save_Inr:
  assumes run: "Document_save n cfg s d = Some (Inr (s', d'))"
  shows "\<exists>s3 d4. Document_save_row cfg s d = Inr (s3, d4) \<and>
     ((current_revision d4 = None \<or> (old_slug d4 = None \<and> old_title d4 = None)) \<and> s' = s3 \<and> d' = d4
      \<or> (\<exists>c cr t sl x y. current_revision d4 = Some c \<and> (old_slug d4 \<noteq> None \<or> old_title d4 \<noteq> None) \<and>
           get_revision s3 c = Inr cr \<and>
           attr_for_redirect s3 d4 Title (REDIRECT_TITLE cfg) = Some t \<and>
           attr_for_redirect s3 d4 Slug (REDIRECT_SLUG cfg) = Some sl \<and>
           \<not> collides s3 d4 Title t \<and> \<not> collides s3 d4 Slug sl \<and>
           documents s' = documents s3 @ [x] \<and> revisions s' = revisions s3 @ [y] \<and>
           doc_id x = Some (next_doc_id s3) \<and> title x = t \<and> slug x = sl \<and>
           doc_locale x = doc_locale d4 \<and> \<not> is_localizable x \<and> category x = category d4 \<and>
           parent x = None \<and> current_revision x = rev_id y \<and>
           html x = wiki_to_html cfg (content y) (doc_locale d4) (doc_id x) \<and>
           old_slug x = None \<and> old_title x = None \<and>
           rev_id y = Some (next_rev_id s3) \<and> document y = doc_id x \<and> is_approved y \<and>
           content y = fst (REDIRECT_CONTENT cfg) @ title d4 @ snd (REDIRECT_CONTENT cfg) \<and>
           creator y = creator cr \<and> reviewer y = Some (creator cr) \<and> based_on y = None \<and>
           d' = d4\<lparr>old_slug := None, old_title := None\<rparr>))"
proof (cases n)
  case 0
  with run show ?thesis by simp
next
  case (Suc m)
  from run Suc obtain s3 d4 where row: "Document_save_row cfg s d = Inr (s3, d4)"
    by (auto split: sum.splits)
  from run Suc row obtain cur where gc: "get_current_revision s3 d4 = Inr cur"
    by (auto split: sum.splits)
  show ?thesis
  proof (cases "cur = None \<or> (old_slug d4 = None \<and> old_title d4 = None)")
    case True
    with run Suc row gc have "s' = s3 \<and> d' = d4"
      by (auto split: option.splits)
    moreover from True gc have "current_revision d4 = None \<or> (old_slug d4 = None \<and> old_title d4 = None)"
      by (auto dest: get_current_revision_None)
    ultimately show ?thesis using row by blast
  next
    case False
    then obtain cr where cur: "cur = Some cr" and ren: "old_slug d4 \<noteq> None \<or> old_title d4 \<noteq> None"
      by auto
    from gc cur obtain c where c: "current_revision d4 = Some c" "get_revision s3 c = Inr cr"
      by (auto simp: get_current_revision_def split: option.splits sum.splits)
    from run Suc row gc cur ren obtain t sl s4 doc r5 d5 where
      t: "attr_for_redirect s3 d4 Title (REDIRECT_TITLE cfg) = Some t"
      and sl: "attr_for_redirect s3 d4 Slug (REDIRECT_SLUG cfg) = Some sl"
      and a: "Document_save m cfg s3 (new_redirect_document d4 t sl) = Some (Inr (s4, doc))"
      and b: "Revision_save m cfg s4 (new_redirect_revision cfg d4 doc cr) doc = Some (Inr (s', r5, d5))"
      and d': "d' = d4\<lparr>old_slug := None, old_title := None\<rparr>"
      by (auto split: option.splits sum.splits if_splits)
    let ?nd = "new_redirect_document d4 t sl"
    let ?k = "next_doc_id s3"
    have nd: "doc_id ?nd = None" "parent ?nd = None" "old_slug ?nd = None" "old_title ?nd = None"
      "current_revision ?nd = None" "\<not> is_localizable ?nd" "doc_locale ?nd = doc_locale d4"
      "title ?nd = t" "slug ?nd = sl" "category ?nd = category d4"
      by (simp_all add: new_redirect_document_def)
    have "Document_save_row cfg s3 ?nd = Inr (s4, doc)"
      using a by (intro Document_save_unrenamed_Inr [where n = m]) (simp_all add: nd)
    from Document_save_row_new [OF this nd(1,2)]
    have free: "\<not> collides s3 ?nd Slug sl \<and> \<not> collides s3 ?nd Title t"
      and doc: "doc = ?nd\<lparr>doc_id := Some ?k,
                  is_template := startswith t (TEMPLATE_TITLE_PREFIX cfg),
                  is_localizable := False\<rparr>"
      and s4: "s4 = s3\<lparr>documents := documents s3 @ [stored doc]\<rparr>"
      by (simp_all add: nd)
    from free have free': "\<not> collides s3 d4 Title t \<and> \<not> collides s3 d4 Slug sl"
      using collides_locale [OF nd(7)] by simp
    let ?rr = "new_redirect_revision cfg d4 doc cr"
    have rr: "rev_id ?rr = None" "based_on ?rr = None" "is_approved ?rr" "\<not> is_ready_for_localization ?rr"
      by (simp_all add: new_redirect_revision_def)
    have dk: "doc_id doc = Some ?k" "?k \<noteq> 0" "parent doc = None" "current_revision doc = None"
      "old_slug doc = None" "old_title doc = None" "\<not> is_localizable doc"
      by (simp_all add: doc nd next_doc_id_def)
    have ex: "\<exists>x \<in> set (documents s4). doc_id x = Some ?k"
      by (simp add: s4 stored_def dk)
    note rs = Revision_save_redirect [OF b rr dk(1,2,3,4,5,6,7) ex]
    let ?y = "?rr\<lparr>rev_id := Some (next_rev_id s4)\<rparr>"
    from rs have r5: "r5 = ?y" and revs: "revisions s' = revisions s4 @ [?y]"
      and d5: "d5 = doc\<lparr>html := wiki_to_html cfg (content ?rr) (doc_locale doc) (Some ?k),
                  current_revision := Some (next_rev_id s4),
                  is_template := startswith (title doc) (TEMPLATE_TITLE_PREFIX cfg)\<rparr>"
      and docs: "documents s' = map (\<lambda>x. if doc_id x = Some ?k then stored d5 else x) (documents s4)"
      by simp_all
    have nr: "next_rev_id s4 = next_rev_id s3" by (simp add: next_rev_id_def s4)
    have idm: "map (\<lambda>x. if doc_id x = Some ?k then stored d5 else x) (documents s3) = documents s3"
      by (intro map_idI) (simp add: next_doc_id_fresh)
    from docs have docs': "documents s' = documents s3 @ [stored d5]"
      by (simp add: s4 idm stored_def dk)
    from revs have revs': "revisions s' = revisions s3 @ [?y]" by (simp add: s4)
    have x: "doc_id (stored d5) = Some ?k \<and> title (stored d5) = t \<and> slug (stored d5) = sl \<and>
           doc_locale (stored d5) = doc_locale d4 \<and> \<not> is_localizable (stored d5) \<and>
           category (stored d5) = category d4 \<and> parent (stored d5) = None \<and>
           current_revision (stored d5) = rev_id ?y \<and>
           html (stored d5) = wiki_to_html cfg (content ?y) (doc_locale d4) (doc_id (stored d5)) \<and>
           old_slug (stored d5) = None \<and> old_title (stored d5) = None"
      by (simp add: stored_def d5 doc nd new_redirect_revision_def)
    have y: "rev_id ?y = Some (next_rev_id s3) \<and> document ?y = doc_id (stored d5) \<and> is_approved ?y \<and>
           content ?y = fst (REDIRECT_CONTENT cfg) @ title d4 @ snd (REDIRECT_CONTENT cfg) \<and>
           creator ?y = creator cr \<and> reviewer ?y = Some (creator cr) \<and> based_on ?y = None"
      by (simp add: nr stored_def d5 doc new_redirect_revision_def)
    from row c ren t sl free' docs' revs' x y d' show ?thesis by blast
  qed
qed

subsection \<open>Fields a save keeps, and that it returns\<close>

lemma Document_save_row_steps:
  assumes "Document_save_row cfg s d = Inr (s', d')"
  obtains d1 s1 d2 s2 d3 where
    "clean_is_localizable cfg s (d\<lparr>is_template := startswith (title d) (TEMPLATE_TITLE_PREFIX cfg)\<rparr>) = Inr d1"
    "ensure_inherited_attr s d1 Is_archived = Inr (s1, d2)"
    "clean_category cfg s1 d2 = Inr (s2, d3)"
    "save_document_row s2 d3 = (s', d')"
  using assms by (auto simp: Document_save_row_def Let_def split: sum.splits)

lemma clean_is_localizable_fields:
  assumes "clean_is_localizable cfg s d = Inr d1"
  shows "title d1 = title d \<and> slug d1 = slug d \<and> doc_locale d1 = doc_locale d \<and>
         current_revision d1 = current_revision d \<and> html d1 = html d \<and>
         latest_localizable_revision d1 = latest_localizable_revision d \<and> parent d1 = parent d \<and>
         doc_id d1 = doc_id d"
  using assms by (auto simp: clean_is_localizable_def Let_def split: sum.splits if_splits)

lemma inherit_fields:
  "title (inherit a p d) = title d \<and> slug (inherit a p d) = slug d \<and> doc_locale (inherit a p d) = doc_locale d \<and>
         current_revision (inherit a p d) = current_revision d \<and> html (inherit a p d) = html d \<and>
         latest_localizable_revision (inherit a p d) = latest_localizable_revision d \<and> parent (inherit a p d) = parent d \<and>
         doc_id (inherit a p d) = doc_id d"
  by (cases a) simp_all

lemma ensure_inherited_attr_fields:
  assumes "ensure_inherited_attr s d a = Inr (s1, d2)"
  shows "title d2 = title d \<and> slug d2 = slug d \<and> doc_locale d2 = doc_locale d \<and>
         current_revision d2 = current_revision d \<and> html d2 = html d \<and>
         latest_localizable_revision d2 = latest_localizable_revision d \<and> parent d2 = parent d"
  using assms inherit_fields [of a _ d]
  by (auto simp: ensure_inherited_attr_def split: sum.splits option.splits if_splits)

lemma clean_category_fields:
  assumes "clean_category cfg s d = Inr (s1, d2)"
  shows "title d2 = title d \<and> slug d2 = slug d \<and> doc_locale d2 = doc_locale d \<and>
         current_revision d2 = current_revision d \<and> html d2 = html d \<and>
         latest_localizable_revision d2 = latest_localizable_revision d \<and> parent d2 = parent d"
proof -
  from assms have "ensure_inherited_attr s d Category = Inr (s1, d2)"
    by (auto simp: clean_category_def split: sum.splits if_splits)
  then show ?thesis by (rule ensure_inherited_attr_fields)
qed

lemma save_document_row_fields:
  assumes "save_document_row s d = (s', d')"
  shows "title d' = title d \<and> slug d' = slug d \<and> doc_locale d' = doc_locale d \<and>
         current_revision d' = current_revision d \<and> html d' = html d \<and>
         latest_localizable_revision d' = latest_localizable_revision d \<and> parent d' = parent d \<and>
         (doc_id d \<noteq> None \<longrightarrow> doc_id d' = doc_id d) \<and> doc_id d' \<noteq> None"
  using assms
  by (cases "doc_id d") (auto simp: save_document_row_def Let_def split: if_splits)

lemma save_document_row_own:
  assumes "save_document_row s d = (s', d')"
  shows "\<exists>x \<in> set (documents s'). doc_id x = doc_id d'"
proof (cases "doc_id d")
  case None
  with assms show ?thesis by (auto simp: save_document_row_def Let_def stored_def)
next
  case (Some k)
  show ?thesis
  proof (cases "\<exists>x \<in> set (documents s). doc_id x = Some k")
    case True
    then obtain x where x: "x \<in> set (documents s)" "doc_id x = Some k" by blast
    from assms Some True have "d' = d"
      and "documents s' = map (\<lambda>x. if doc_id x = Some k then stored d else x) (documents s)"
      by (auto simp: save_document_row_def)
    with x Some have "stored d \<in> set (documents s') \<and> doc_id (stored d) = doc_id d'"
      by (force simp: stored_def)
    then show ?thesis by blast
  next
    case False
    with assms Some show ?thesis by (auto simp: save_document_row_def stored_def)
  qed
qed

lemma Document_save_row_fields:
  assumes run: "Document_save_row cfg s d = Inr (s', d')"
  shows "title d' = title d \<and> slug d' = slug d \<and> doc_locale d' = doc_locale d \<and>
         current_revision d' = current_revision d \<and> html d' = html d \<and>
         latest_localizable_revision d' = latest_localizable_revision d \<and> parent d' = parent d \<and>
         (doc_id d \<noteq> None \<longrightarrow> doc_id d' = doc_id d) \<and> doc_id d' \<noteq> None \<and>
         (\<exists>x \<in> set (documents s'). doc_id x = doc_id d')"
proof -
  from run obtain d1 s1 d2 s2 d3 where
    loc: "clean_is_localizable cfg s (d\<lparr>is_template := startswith (title d) (TEMPLATE_TITLE_PREFIX cfg)\<rparr>) = Inr d1"
    and arch: "ensure_inherited_attr s d1 Is_archived = Inr (s1, d2)"
    and cat: "clean_category cfg s1 d2 = Inr (s2, d3)"
    and row: "save_document_row s2 d3 = (s', d')"
    by (rule Document_save_row_steps)
  from clean_is_localizable_fields [OF loc] ensure_inherited_attr_fields [OF arch]
    clean_category_fields [OF cat] save_document_row_fields [OF row]
    ensure_inherited_attr_frame [OF arch] clean_category_frame [OF cat]
    save_document_row_own [OF row]
  show ?thesis by simp
qed

lemma Document_save_row_frame_existing:
  assumes run: "Document_save_row cfg s d = Inr (s', d')"
    and key: "doc_id d = Some k" and ex: "\<exists>x \<in> set (documents s). doc_id x = Some k"
  shows "map doc_id (documents s') = map doc_id (documents s)"
proof -
  from run obtain d1 s1 d2 s2 d3 where
    loc: "clean_is_localizable cfg s (d\<lparr>is_template := startswith (title d) (TEMPLATE_TITLE_PREFIX cfg)\<rparr>) = Inr d1"
    and arch: "ensure_inherited_attr s d1 Is_archived = Inr (s1, d2)"
    and cat: "clean_category cfg s1 d2 = Inr (s2, d3)"
    and row: "save_document_row s2 d3 = (s', d')"
    by (rule Document_save_row_steps)
  have 1: "doc_id d1 = Some k" by (subst clean_is_localizable_fields [OF loc]) (simp add: key)
  note f1 = ensure_inherited_attr_frame [OF arch]
  note f2 = clean_category_frame [OF cat]
  from f1 f2 1 have k3: "doc_id d3 = Some k" by simp
  from f1 f2 have ids: "map doc_id (documents s2) = map doc_id (documents s)" by simp
  from ex have "Some k \<in> set (map doc_id (documents s))" by force
  with ids have "Some k \<in> set (map doc_id (documents s2))" by simp
  then have ex2: "\<exists>x \<in> set (documents s2). doc_id x = Some k" by auto
  have m: "map doc_id (map (\<lambda>x. if doc_id x = Some k then stored d3 else x) xs) = map doc_id xs" for xs
    by (induction xs) (simp_all add: stored_def k3)
  from row k3 ex2 have "documents s' = map (\<lambda>x. if doc_id x = Some k then stored d3 else x) (documents s2)"
    by (auto simp: save_document_row_def)
  then have "map doc_id (documents s') = map doc_id (documents s2)" by (simp only: m)
  with ids show ?thesis by simp
qed

lemma attr_for_redirect_returns:
  assumes num: "Number \<in> set t"
  shows "\<exists>v. attr_for_redirect s d a t = Some v"
proof (cases "old_attr d a")
  case (Some v)
  then show ?thesis by (simp add: attr_for_redirect_def)
next
  case None
  let ?free = "\<lambda>i. 1 \<le> i \<and> \<not> collides s d a (format_template t (getattr d a) i)"
  define k where "k = (LEAST i. ?free i)"
  from free_suffix_exists [OF num, of s d a "getattr d a"] obtain i0 where "?free i0" by blast
  then have k: "?free k" unfolding k_def by (rule LeastI)
  have least: "collides s d a (format_template t (getattr d a) j)" if "1 \<le> j" "j < k" for j
  proof (rule ccontr)
    assume "\<not> collides s d a (format_template t (getattr d a) j)"
    with that have "?free j" by simp
    then have "k \<le> j" unfolding k_def by (rule Least_le)
    with that show False by simp
  qed
  from k least have "unique_attr_loop s d a t 1 = Some (format_template t (getattr d a) k)"
    by (intro unique_attr_loop_finds) auto
  with None show ?thesis by (simp add: attr_for_redirect_def unique_attr_def)
qed

lemma Document_save_unrenamed_returns:
  assumes "old_slug d = None" "old_title d = None"
  shows "Document_save (Suc n) cfg s d \<noteq> None"
  unfolding Document_save_unrenamed [OF assms]
  by (auto split: sum.splits prod.splits)

lemma Revision_save_unrenamed_returns:
  assumes old: "old_slug d = None" "old_title d = None"
  shows "Revision_save (Suc (Suc n)) cfg s r d \<noteq> None"
proof -
  have ds: "Document_save (Suc n) cfg s0 (d\<lparr>latest_localizable_revision := x\<rparr>) \<noteq> None"
    "Document_save (Suc n) cfg s0 (d\<lparr>html := h, current_revision := c\<rparr>) \<noteq> None"
    "Document_save (Suc n) cfg s0 (d\<lparr>latest_localizable_revision := x, html := h, current_revision := c\<rparr>) \<noteq> None"
    for s0 x h c
    by (rule Document_save_unrenamed_returns; simp add: old)+
  show ?thesis
    unfolding Revision_save.simps
    by (auto simp: Let_def ds split: sum.splits prod.splits save_branch.splits option.splits
        simp del: Document_save.simps)
qed

lemma Document_save_returns:
  assumes num: "Number \<in> set (REDIRECT_TITLE cfg)" "Number \<in> set (REDIRECT_SLUG cfg)"
  shows "Document_save (Suc (Suc (Suc n))) cfg s d \<noteq> None"
proof (cases "Document_save_row cfg s d")
  case (Inl e)
  then show ?thesis by simp
next
  case (Inr p)
  obtain s3 d4 where p: "p = (s3, d4)" by (cases p)
  note row = Inr [unfolded p]
  show ?thesis
  proof (cases "get_current_revision s3 d4")
    case (Inl e)
    with row show ?thesis by simp
  next
    case gc: (Inr cur)
    show ?thesis
    proof (cases "cur = None \<or> (old_slug d4 = None \<and> old_title d4 = None)")
      case True
      with row gc show ?thesis by (auto split: option.splits)
    next
      case False
      then obtain c where cur: "cur = Some c" and ren: "old_slug d4 \<noteq> None \<or> old_title d4 \<noteq> None"
        by auto
      from attr_for_redirect_returns [OF num(1)] obtain t where
        t: "attr_for_redirect s3 d4 Title (REDIRECT_TITLE cfg) = Some t" by blast
      from attr_for_redirect_returns [OF num(2)] obtain sl where
        sl: "attr_for_redirect s3 d4 Slug (REDIRECT_SLUG cfg) = Some sl" by blast
      let ?nd = "new_redirect_document d4 t sl"
      have ndold: "old_slug ?nd = None" "old_title ?nd = None"
        by (simp_all add: new_redirect_document_def)
      from Document_save_unrenamed_returns [OF ndold, of "Suc n" cfg s3]
      obtain res where res: "Document_save (Suc (Suc n)) cfg s3 ?nd = Some res" by blast
      show ?thesis
      proof (cases res)
        case (Inl e)
        with row gc cur ren t sl res show ?thesis
          by (simp del: Document_save.simps(2) Revision_save.simps add: Document_save.simps(2) [of "Suc (Suc n)" cfg s d])
      next
        case (Inr q)
        obtain s4 doc where q: "q = (s4, doc)" by (cases q)
        from res Inr q have a: "Document_save (Suc (Suc n)) cfg s3 ?nd = Some (Inr (s4, doc))" by simp
        from Document_save_unrenamed_Inr [OF ndold a] have "Document_save_row cfg s3 ?nd = Inr (s4, doc)" .
        from Document_save_row_old [OF this] ndold
        have dold: "old_slug doc = None" "old_title doc = None" by simp_all
        from Revision_save_unrenamed_returns [OF dold, of n cfg s4 "new_redirect_revision cfg d4 doc c"]
        obtain res2 where res2: "Revision_save (Suc (Suc n)) cfg s4 (new_redirect_revision cfg d4 doc c) doc = Some res2"
          by blast
        with row gc cur ren t sl a show ?thesis
          by (cases res2)
            (auto simp del: Document_save.simps(2) Revision_save.simps
              simp add: Document_save.simps(2) [of "Suc (Suc n)" cfg s d])
      qed
    qed
  qed
qed

lemma Revision_save_returns:
  assumes num: "Number \<in> set (REDIRECT_TITLE cfg)" "Number \<in> set (REDIRECT_SLUG cfg)"
  shows "Revision_save (Suc (Suc (Suc (Suc n)))) cfg s r d \<noteq> None"
  unfolding Revision_save.simps
  by (auto simp: Let_def Document_save_returns [OF num]
      split: sum.splits prod.splits save_branch.splits option.splits
      simp del: Document_save.simps)

subsection \<open>The redirect of a rename\<close>

lemma get_revision_cong: "revisions s' = revisions s \<Longrightarrow> get_revision s' k = get_revision s k"
  by (simp add: get_revision_def)

lemma rename_redirect_created:
  assumes run: "Document_save n cfg s d = Some (Inr (s', d'))"
    and cur: "current_revision d = Some c"
    and ren: "old_slug d \<noteq> None \<or> old_title d \<noteq> None"
  shows "(\<exists>(s3::db) x y cr.
            revisions s3 = revisions s \<and>
            (map doc_id (documents s3) = map doc_id (documents s) \<or>
             map doc_id (documents s3) = map doc_id (documents s) @ [doc_id d']) \<and>
            documents s' = documents s3 @ [x] \<and> revisions s' = revisions s @ [y] \<and>
            doc_id x \<notin> set (map doc_id (documents s3)) \<and>
            doc_locale x = doc_locale d \<and> \<not> is_localizable x \<and> category x = category d' \<and>
            (\<forall>t. old_title d = Some t \<longrightarrow> title x = t) \<and>
            (\<forall>sl. old_slug d = Some sl \<longrightarrow> slug x = sl) \<and>
            (\<forall>z \<in> set (documents s3). doc_locale z = doc_locale x \<longrightarrow>
               title z \<noteq> title x \<and> slug z \<noteq> slug x) \<and>
            current_revision x = rev_id y \<and> rev_id y \<noteq> None \<and>
            (\<forall>z \<in> set (revisions s). rev_id z \<noteq> rev_id y) \<and>
            document y = doc_id x \<and> is_approved y \<and>
            content y = fst (REDIRECT_CONTENT cfg) @ title d @ snd (REDIRECT_CONTENT cfg) \<and>
            get_revision s c = Inr cr \<and> creator y = creator cr \<and> reviewer y = Some (creator cr)) \<and>
         old_slug d' = None \<and> old_title d' = None \<and>
         (\<forall>m s'' d''. Document_save m cfg s' d' = Some (Inr (s'', d'')) \<longrightarrow>
            revisions s'' = revisions s' \<and> map doc_id (documents s'') = map doc_id (documents s')) \<and>
         (Number \<in> set (REDIRECT_TITLE cfg) \<and> Number \<in> set (REDIRECT_SLUG cfg) \<longrightarrow>
            (\<forall>m. Document_save (Suc (Suc (Suc m))) cfg s d \<noteq> None))"
proof -
  from Document_save_Inr [OF run] obtain s3 d4 where row: "Document_save_row cfg s d = Inr (s3, d4)"
    and alt: "(current_revision d4 = None \<or> (old_slug d4 = None \<and> old_title d4 = None)) \<and> s' = s3 \<and> d' = d4
      \<or> (\<exists>c cr t sl x y. current_revision d4 = Some c \<and> (old_slug d4 \<noteq> None \<or> old_title d4 \<noteq> None) \<and>
           get_revision s3 c = Inr cr \<and>
           attr_for_redirect s3 d4 Title (REDIRECT_TITLE cfg) = Some t \<and>
           attr_for_redirect s3 d4 Slug (REDIRECT_SLUG cfg) = Some sl \<and>
           \<not> collides s3 d4 Title t \<and> \<not> collides s3 d4 Slug sl \<and>
           documents s' = documents s3 @ [x] \<and> revisions s' = revisions s3 @ [y] \<and>
           doc_id x = Some (next_doc_id s3) \<and> title x = t \<and> slug x = sl \<and>
           doc_locale x = doc_locale d4 \<and> \<not> is_localizable x \<and> category x = category d4 \<and>
           parent x = None \<and> current_revision x = rev_id y \<and>
           html x = wiki_to_html cfg (content y) (doc_locale d4) (doc_id x) \<and>
           old_slug x = None \<and> old_title x = None \<and>
           rev_id y = Some (next_rev_id s3) \<and> document y = doc_id x \<and> is_approved y \<and>
           content y = fst (REDIRECT_CONTENT cfg) @ title d4 @ snd (REDIRECT_CONTENT cfg) \<and>
           creator y = creator cr \<and> reviewer y = Some (creator cr) \<and> based_on y = None \<and>
           d' = d4\<lparr>old_slug := None, old_title := None\<rparr>)"
    by blast
  note fields = Document_save_row_fields [OF row]
  note old = Document_save_row_old [OF row]
  note frame = Document_save_row_frame [OF row]
  from fields cur have c4: "current_revision d4 = Some c" by simp
  from old ren have ren4: "old_slug d4 \<noteq> None \<or> old_title d4 \<noteq> None" by simp
  from alt c4 ren4 obtain cr t sl x y where
    cr: "get_revision s3 c = Inr cr"
    and t: "attr_for_redirect s3 d4 Title (REDIRECT_TITLE cfg) = Some t"
    and sl: "attr_for_redirect s3 d4 Slug (REDIRECT_SLUG cfg) = Some sl"
    and free: "\<not> collides s3 d4 Title t" "\<not> collides s3 d4 Slug sl"
    and docs: "documents s' = documents s3 @ [x]" and revs: "revisions s' = revisions s3 @ [y]"
    and x: "doc_id x = Some (next_doc_id s3)" "title x = t" "slug x = sl"
      "doc_locale x = doc_locale d4" "\<not> is_localizable x" "category x = category d4"
      "current_revision x = rev_id y"
    and y: "rev_id y = Some (next_rev_id s3)" "document y = doc_id x" "is_approved y"
      "content y = fst (REDIRECT_CONTENT cfg) @ title d4 @ snd (REDIRECT_CONTENT cfg)"
      "creator y = creator cr" "reviewer y = Some (creator cr)"
    and d': "d' = d4\<lparr>old_slug := None, old_title := None\<rparr>"
    by auto
  from frame have r3: "revisions s3 = revisions s" by simp
  have ids: "map doc_id (documents s3) = map doc_id (documents s) \<or>
             map doc_id (documents s3) = map doc_id (documents s) @ [doc_id d']"
    using frame by (simp add: d')
  have fresh: "doc_id x \<notin> set (map doc_id (documents s3))"
  proof
    assume "doc_id x \<in> set (map doc_id (documents s3))"
    then obtain z where "z \<in> set (documents s3)" "doc_id z = doc_id x" by auto
    with next_doc_id_fresh [of z s3] x(1) show False by simp
  qed
  have rfresh: "\<forall>z \<in> set (revisions s). rev_id z \<noteq> rev_id y"
  proof
    fix z assume "z \<in> set (revisions s)"
    with r3 have "z \<in> set (revisions s3)" by simp
    from next_rev_id_fresh [OF this] y(1) show "rev_id z \<noteq> rev_id y" by simp
  qed
  have tt: "\<forall>v. old_title d = Some v \<longrightarrow> title x = v"
    using t old by (auto simp: attr_for_redirect_def x)
  have ss: "\<forall>v. old_slug d = Some v \<longrightarrow> slug x = v"
    using sl old by (auto simp: attr_for_redirect_def x)
  have uniq: "\<forall>z \<in> set (documents s3). doc_locale z = doc_locale x \<longrightarrow>
               title z \<noteq> title x \<and> slug z \<noteq> slug x"
    using free by (auto simp: collides_def x)
  have crs: "get_revision s c = Inr cr" using cr by (simp add: get_revision_cong [OF r3])
  have inst: "revisions s3 = revisions s \<and>
            (map doc_id (documents s3) = map doc_id (documents s) \<or>
             map doc_id (documents s3) = map doc_id (documents s) @ [doc_id d']) \<and>
            documents s' = documents s3 @ [x] \<and> revisions s' = revisions s @ [y] \<and>
            doc_id x \<notin> set (map doc_id (documents s3)) \<and>
            doc_locale x = doc_locale d \<and> \<not> is_localizable x \<and> category x = category d' \<and>
            (\<forall>t. old_title d = Some t \<longrightarrow> title x = t) \<and>
            (\<forall>sl. old_slug d = Some sl \<longrightarrow> slug x = sl) \<and>
            (\<forall>z \<in> set (documents s3). doc_locale z = doc_locale x \<longrightarrow>
               title z \<noteq> title x \<and> slug z \<noteq> slug x) \<and>
            current_revision x = rev_id y \<and> rev_id y \<noteq> None \<and>
            (\<forall>z \<in> set (revisions s). rev_id z \<noteq> rev_id y) \<and>
            document y = doc_id x \<and> is_approved y \<and>
            content y = fst (REDIRECT_CONTENT cfg) @ title d @ snd (REDIRECT_CONTENT cfg) \<and>
            get_revision s c = Inr cr \<and> creator y = creator cr \<and> reviewer y = Some (creator cr)"
    using r3 ids docs revs fresh tt ss uniq rfresh crs x y fields
    by (simp add: d')
  have part1: "\<exists>(s3::db) x y cr.
            revisions s3 = revisions s \<and>
            (map doc_id (documents s3) = map doc_id (documents s) \<or>
             map doc_id (documents s3) = map doc_id (documents s) @ [doc_id d']) \<and>
            documents s' = documents s3 @ [x] \<and> revisions s' = revisions s @ [y] \<and>
            doc_id x \<notin> set (map doc_id (documents s3)) \<and>
            doc_locale x = doc_locale d \<and> \<not> is_localizable x \<and> category x = category d' \<and>
            (\<forall>t. old_title d = Some t \<longrightarrow> title x = t) \<and>
            (\<forall>sl. old_slug d = Some sl \<longrightarrow> slug x = sl) \<and>
            (\<forall>z \<in> set (documents s3). doc_locale z = doc_locale x \<longrightarrow>
               title z \<noteq> title x \<and> slug z \<noteq> slug x) \<and>
            current_revision x = rev_id y \<and> rev_id y \<noteq> None \<and>
            (\<forall>z \<in> set (revisions s). rev_id z \<noteq> rev_id y) \<and>
            document y = doc_id x \<and> is_approved y \<and>
            content y = fst (REDIRECT_CONTENT cfg) @ title d @ snd (REDIRECT_CONTENT cfg) \<and>
            get_revision s c = Inr cr \<and> creator y = creator cr \<and> reviewer y = Some (creator cr)"
    by (rule exI [where x = s3], rule exI [where x = x], rule exI [where x = y],
        rule exI [where x = cr]) (rule inst)
  have part2: "old_slug d' = None \<and> old_title d' = None" by (simp add: d')
  have part3: "\<forall>m s'' d''. Document_save m cfg s' d' = Some (Inr (s'', d'')) \<longrightarrow>
            revisions s'' = revisions s' \<and> map doc_id (documents s'') = map doc_id (documents s')"
  proof (intro allI impI)
    fix m s'' d'' assume again: "Document_save m cfg s' d' = Some (Inr (s'', d''))"
    from part2 have o: "old_slug d' = None" "old_title d' = None" by simp_all
    from Document_save_unrenamed_Inr [OF o again] have row2: "Document_save_row cfg s' d' = Inr (s'', d'')" .
    from fields have "doc_id d4 \<noteq> None" by simp
    then obtain k where k: "doc_id d4 = Some k" by auto
    from fields k have own: "\<exists>z \<in> set (documents s3). doc_id z = Some k" by simp
    from k have k': "doc_id d' = Some k" by (simp add: d')
    from own have own': "\<exists>z \<in> set (documents s'). doc_id z = Some k" by (auto simp: docs)
    from Document_save_row_frame [OF row2] Document_save_row_frame_existing [OF row2 k' own']
    show "revisions s'' = revisions s' \<and> map doc_id (documents s'') = map doc_id (documents s')"
      by simp
  qed
  have part4: "Number \<in> set (REDIRECT_TITLE cfg) \<and> Number \<in> set (REDIRECT_SLUG cfg) \<longrightarrow>
            (\<forall>m. Document_save (Suc (Suc (Suc m))) cfg s d \<noteq> None)"
    using Document_save_returns by blast
  show ?thesis by (rule conjI [OF part1 conjI [OF part2 [THEN conjunct1] conjI [OF part2 [THEN conjunct2] conjI [OF part3 part4]]]])
qed

lemma ex_A_renamed_eq: "ex_A_renamed = ex_A\<lparr>slug := ''bar'', old_slug := Some ''foo''\<rparr>"
  by (simp add: ex_A_renamed_def Document_setattr_def truthy_def lower_def lower_char_def ex_defs)

lemma ex_rename_run:
  "Document_save (Suc (Suc (Suc 0))) ex_cfg ex_db ex_A_renamed = Some (Inr (ex_db_bar, ex_A_bar))"
proof -
  let ?d = "ex_A\<lparr>slug := ''bar'', old_slug := Some ''foo''\<rparr>"
  let ?s3 = "ex_db\<lparr>documents := [ex_A_bar, ex_B]\<rparr>"
  have row: "Document_save_row ex_cfg ex_db ?d = Inr (?s3, ?d)"
    by (simp add: save_row_defs ex_A_bar_def ex_defs)
  have gc: "get_current_revision ?s3 ?d = Inr (Some ex_R1)"
    by (simp add: get_current_revision_def get_revision_def ex_defs)
  have d1: "decimal 1 = ''1''"
    by (simp add: decimal.simps digit_def char_of_def bit_0)
  have f1: "format_template (REDIRECT_TITLE ex_cfg) (getattr ?d Title) 1 = ''Foo Redirect 1''"
    using d1 by (simp add: format_template_def ex_defs)
  have nc: "\<not> collides ?s3 ?d Title ''Foo Redirect 1''"
    by (simp add: collides_def ex_A_bar_def ex_defs)
  from nc f1 have "\<not> collides ?s3 ?d Title (format_template (REDIRECT_TITLE ex_cfg) (getattr ?d Title) 1)"
    by simp
  from unique_attr_loop_finds [OF this, of 1]
  have "unique_attr_loop ?s3 ?d Title (REDIRECT_TITLE ex_cfg) 1 =
        Some (format_template (REDIRECT_TITLE ex_cfg) (getattr ?d Title) 1)" by simp
  then have "unique_attr_loop ?s3 ?d Title (REDIRECT_TITLE ex_cfg) 1 = Some ''Foo Redirect 1''"
    by (simp only: f1)
  then have t: "attr_for_redirect ?s3 ?d Title (REDIRECT_TITLE ex_cfg) = Some ''Foo Redirect 1''"
    by (simp add: attr_for_redirect_def unique_attr_def ex_defs)
  have sl: "attr_for_redirect ?s3 ?d Slug (REDIRECT_SLUG ex_cfg) = Some ''foo''"
    by (simp add: attr_for_redirect_def)
  let ?nd = "new_redirect_document ?d ''Foo Redirect 1'' ''foo''"
  let ?doc = "ex_redirect\<lparr>current_revision := None, html := []\<rparr>"
  let ?s4 = "ex_db\<lparr>documents := [ex_A_bar, ex_B, ?doc]\<rparr>"
  have ndold: "old_slug ?nd = None" "old_title ?nd = None"
    by (simp_all add: new_redirect_document_def)
  have row2: "Document_save_row ex_cfg ?s3 ?nd = Inr (?s4, ?doc)"
    by (simp add: save_row_defs new_redirect_document_def next_doc_id_def key_of_def
        ex_redirect_def ex_A_bar_def ex_defs)
  have gc2: "get_current_revision ?s4 ?doc = Inr None"
    by (simp add: get_current_revision_def)
  have a: "Document_save (Suc (Suc 0)) ex_cfg ?s3 ?nd = Some (Inr (?s4, ?doc))"
    unfolding Document_save_unrenamed [OF ndold] by (simp add: row2 gc2)
  let ?rr = "new_redirect_revision ex_cfg ?d ?doc ex_R1"
  let ?s5 = "?s4\<lparr>revisions := [ex_R1, ex_R2, ex_R3, ex_R_redirect]\<rparr>"
  have clean: "based_on_is_clean ?s4 ?rr ?doc = Inr (None, True)"
    by (simp add: based_on_is_clean_def original_def get_parent_def new_redirect_revision_def ex_redirect_def)
  have rrow: "save_revision_row ?s4 ?rr = (?s5, ex_R_redirect)"
    by (simp add: save_revision_row_def new_redirect_revision_def next_rev_id_def key_of_def
        Let_def ex_R_redirect_def ex_redirect_def ex_defs)
  have gc3: "get_current_revision ?s5 ?doc = Inr None"
    by (simp add: get_current_revision_def)
  have app: "is_approved ex_R_redirect" by (simp add: ex_R_redirect_def)
  have br: "Revision_save_branch ?s5 ex_R_redirect ?doc = Inr Update_current"
    by (simp add: Revision_save_branch_def gc3 app)
  have contr: "new_contributors ?s5 ?doc None = {7}"
    by (simp add: new_contributors_def revisions_of_def rejected_def ex_redirect_def ex_R_redirect_def ex_defs)
  let ?s6 = "?s5\<lparr>contributors := {(1, 7), (2, 8), (3, 7)}\<rparr>"
  have c0: "contributors ?s5 = {(1, 7), (2, 8)}" by (simp add: ex_defs)
  have cu: "contributors ?s5 \<union> (\<lambda>u. (3, u)) ` new_contributors ?s5 ?doc None = {(1, 7), (2, 8), (3, 7)}"
    unfolding contr c0 by auto
  have s6: "?s5\<lparr>contributors := contributors ?s5 \<union> (\<lambda>u. (3, u)) ` new_contributors ?s5 ?doc None\<rparr> = ?s6"
    by (simp only: cu)
  have d3: "(?doc\<lparr>html := content_parsed ex_cfg ex_R_redirect ?doc\<rparr>)\<lparr>current_revision := rev_id ex_R_redirect\<rparr> = ex_redirect"
    by (simp add: content_parsed_def ex_redirect_def ex_R_redirect_def ex_defs)
  have rold: "old_slug ex_redirect = None" "old_title ex_redirect = None"
    by (simp_all add: ex_redirect_def)
  have row3: "Document_save_row ex_cfg ?s6 ex_redirect = Inr (ex_db_bar, ex_redirect)"
    by (simp add: save_row_defs ex_db_bar_def ex_redirect_def ex_A_bar_def ex_defs)
  have gc4: "get_current_revision ex_db_bar ex_redirect = Inr (Some ex_R_redirect)"
    by (simp add: get_current_revision_def get_revision_def ex_db_bar_def ex_redirect_def ex_R_redirect_def ex_defs)
  have inner: "Document_save (Suc 0) ex_cfg ?s6 ex_redirect = Some (Inr (ex_db_bar, ex_redirect))"
    unfolding Document_save_unrenamed [OF rold] by (simp only: row3 gc4 sum.case split_conv)
  have did: "doc_id ?doc = Some 3" by (simp add: ex_redirect_def)
  have nrdy: "\<not> is_ready_for_localization ex_R_redirect" by (simp add: ex_R_redirect_def)
  have b: "Revision_save (Suc (Suc 0)) ex_cfg ?s4 ?rr ?doc = Some (Inr (ex_db_bar, ex_R_redirect, ex_redirect))"
    unfolding Revision_save.simps
    by (simp only: clean rrow br gc3 did nrdy s6 d3 inner Let_def sum.case split_conv
        save_branch.case option.case simp_thms if_False if_True)
  have ch: "(old_slug ?d \<noteq> None \<or> old_title ?d \<noteq> None) = True" by simp
  have "Document_save (Suc (Suc (Suc 0))) ex_cfg ex_db ?d = Some (Inr (ex_db_bar, ?d\<lparr>old_slug := None, old_title := None\<rparr>))"
    unfolding Document_save.simps(2) [of "Suc (Suc 0)" ex_cfg ex_db]
    by (simp only: row gc t sl a b ch Let_def sum.case split_conv option.case simp_thms if_True)
  moreover have "?d\<lparr>old_slug := None, old_title := None\<rparr> = ex_A_bar"
    by (simp add: ex_A_bar_def ex_defs)
  ultimately show ?thesis by (simp only: ex_A_renamed_eq)
qed

lemma unique_attr_loop_free:
  assumes "unique_attr_loop s d a t i = Some v"
  shows "\<not> collides s d a v"
proof (rule unique_attr_loop.raw_induct [where P = "\<lambda>s d a t i y. \<not> collides s d a y", OF _ assms])
  fix f s d a t i y
  assume "\<And>d a t i b y. f d a t i b = Some y \<Longrightarrow> \<not> collides d a t y"
    and "(let new_value = format_template t (getattr d a) i
          in if \<not> collides s d a new_value then Some new_value else f s d a t (i + 1)) = Some y"
  then show "\<not> collides s d a y"
    by (auto simp: Let_def split: if_splits)
qed

lemma attr_for_redirect_free:
  assumes "attr_for_redirect s d a t = Some v" and "old_attr d a = None"
  shows "\<not> collides s d a v"
  using assms unique_attr_loop_free [of s d a t 1 v]
  by (simp add: attr_for_redirect_def unique_attr_def)

lemma collides_is_template_upd:
  "collides s (d\<lparr>is_template := b\<rparr>) a v = collides s d a v"
  by (simp add: collides_def)

lemma Document_save_row_collision:
  assumes "Document_save_row cfg s d = Inl (collision_of a)"
  shows "(doc_id d = None \<or> old_attr d a \<noteq> None) \<and> collides s d a (getattr d a)"
proof -
  let ?d = "d\<lparr>is_template := startswith (title d) (TEMPLATE_TITLE_PREFIX cfg)\<rparr>"
  have same: "doc_id ?d = doc_id d" "old_attr ?d b = old_attr d b" "getattr ?d b = getattr d b"
    "collides s ?d b v = collides s d b v" for b v
    by (cases b; simp add: collides_def)+
  show ?thesis
  proof (cases "raise_if_collides s ?d Slug SlugCollision")
    case (Inl x)
    with assms have e: "collision_of a = x" by (simp add: Document_save_row_def Let_def)
    from raise_if_collides_error [OF Inl] e have "a = Slug" by (cases a) simp_all
    with raise_if_collides_error [OF Inl] show ?thesis by (simp add: same)
  next
    case slug_ok: (Inr u)
    show ?thesis
    proof (cases "raise_if_collides s ?d Title TitleCollision")
      case (Inl x)
      with assms slug_ok have e: "collision_of a = x" by (simp add: Document_save_row_def Let_def)
      from raise_if_collides_error [OF Inl] e have "a = Title" by (cases a) simp_all
      with raise_if_collides_error [OF Inl] show ?thesis by (simp add: same)
    next
      case title_ok: (Inr v)
      show ?thesis
      proof (cases "clean_is_localizable cfg s ?d")
        case (Inl x)
        with assms slug_ok title_ok have "collision_of a = x" by (simp add: Document_save_row_def Let_def)
        with clean_is_localizable_error [OF Inl] show ?thesis by (cases a) simp_all
      next
        case loc: (Inr d1)
        show ?thesis
        proof (cases "ensure_inherited_attr s d1 Is_archived")
          case (Inl x)
          with assms slug_ok title_ok loc have "collision_of a = x" by (simp add: Document_save_row_def Let_def)
          with ensure_inherited_attr_error [OF Inl] show ?thesis by (cases a) simp_all
        next
          case arch: (Inr p)
          obtain s1 d2 where p: "p = (s1, d2)" by (cases p)
          show ?thesis
          proof (cases "clean_category cfg s1 d2")
            case (Inl x)
            with assms slug_ok title_ok loc arch p have "collision_of a = x"
              by (simp add: Document_save_row_def Let_def)
            with clean_category_error [OF Inl] show ?thesis by (cases a) auto
          next
            case (Inr q)
            with assms slug_ok title_ok loc arch p show ?thesis
              by (simp add: Document_save_row_def Let_def split: prod.splits)
          qed
        qed
      qed
    qed
  qed
qed

lemma Document_save_unrenamed_no_collision:
  assumes old: "old_slug d = None" "old_title d = None" and key: "doc_id d \<noteq> None"
  shows "Document_save n cfg s d \<noteq> Some (Inl (collision_of a))"
proof (cases n)
  case 0
  then show ?thesis by simp
next
  case (Suc m)
  note eq = Document_save_unrenamed [OF old, of m cfg s]
  from old have oa: "old_attr d a = None" by (cases a) simp_all
  show ?thesis
  proof (cases "Document_save_row cfg s d")
    case (Inl e)
    from Document_save_row_collision [of cfg s d a] Inl key oa have "e \<noteq> collision_of a" by auto
    with eq Inl Suc show ?thesis by simp
  next
    case (Inr p)
    obtain s3 d4 where p: "p = (s3, d4)" by (cases p)
    show ?thesis
    proof (cases "get_current_revision s3 d4")
      case (Inl e)
      then have "e = DoesNotExist" by (rule get_current_revision_error)
      then have "e \<noteq> collision_of a" by (cases a) simp_all
      with eq Inl Inr p Suc show ?thesis by simp
    next
      case cur: (Inr c)
      with eq Inr p Suc show ?thesis by simp
    qed
  qed
qed

lemma Document_save_unrenamed_error:
  assumes old: "old_slug d = None" "old_title d = None"
    and err: "Document_save n cfg s d = Some (Inl e)"
  shows "Document_save_row cfg s d = Inl e \<or> e = DoesNotExist"
proof (cases n)
  case 0
  with err show ?thesis by simp
next
  case (Suc m)
  note eq = Document_save_unrenamed [OF old, of m cfg s]
  show ?thesis
  proof (cases "Document_save_row cfg s d")
    case (Inl x)
    with eq err Suc show ?thesis by simp
  next
    case (Inr p)
    obtain s3 d4 where p: "p = (s3, d4)" by (cases p)
    show ?thesis
    proof (cases "get_current_revision s3 d4")
      case (Inl x)
      then have "x = DoesNotExist" by (rule get_current_revision_error)
      with eq err Inl Inr p Suc show ?thesis by simp
    next
      case cur: (Inr c)
      with eq err Inr p Suc show ?thesis by simp
    qed
  qed
qed

lemma Revision_save_redirect_no_collision:
  assumes rr: "based_on rr = None" "is_approved rr"
    and key: "doc_id doc \<noteq> None" and root: "parent doc = None"
    and nocur: "current_revision doc = None"
    and old: "old_slug doc = None" "old_title doc = None"
  shows "Revision_save n cfg s rr doc \<noteq> Some (Inl (collision_of a))"
proof (cases n)
  case 0
  then show ?thesis by simp
next
  case (Suc m)
  obtain s1 r1 where row: "save_revision_row s rr = (s1, r1)" by (cases "save_revision_row s rr")
  from row rr have r1: "is_approved r1"
    by (auto simp: save_revision_row_def Let_def split: option.splits if_splits)
  have clean: "based_on_is_clean s rr doc = Inr (None, True)"
    by (simp add: based_on_is_clean_def original_def get_parent_def root rr)
  have gc: "get_current_revision s1 doc = Inr None"
    by (simp add: get_current_revision_def nocur)
  have br: "Revision_save_branch s1 r1 doc = Inr Update_current"
    by (simp add: Revision_save_branch_def gc r1)
  from key obtain k where k: "doc_id doc = Some k" by auto
  let ?s2 = "s1\<lparr>contributors := contributors s1 \<union> (\<lambda>u. (k, u)) ` new_contributors s1 doc None\<rparr>"
  let ?d1 = "if is_ready_for_localization r1 then doc\<lparr>latest_localizable_revision := rev_id r1\<rparr> else doc"
  let ?d3 = "?d1\<lparr>html := content_parsed cfg r1 ?d1, current_revision := rev_id r1\<rparr>"
  have d3: "old_slug ?d3 = None" "old_title ?d3 = None" "doc_id ?d3 \<noteq> None"
    using old k by simp_all
  have "Revision_save (Suc m) cfg s rr doc =
      (case Document_save m cfg ?s2 ?d3 of None \<Rightarrow> None | Some (Inl e) \<Rightarrow> Some (Inl e)
       | Some (Inr (s3, d4)) \<Rightarrow> Some (Inr (s3, r1, d4)))"
    by (simp only: Revision_save.simps clean row br gc k sum.case split_conv option.case
        save_branch.case simp_thms if_True if_False Let_def)
  with Document_save_unrenamed_no_collision [OF d3, of m cfg ?s2 a] Suc show ?thesis
    by (auto split: option.splits sum.splits)
qed

lemma Document_save_collision:
  assumes err: "Document_save n cfg s d = Some (Inl (collision_of a))"
  shows "((doc_id d = None \<or> old_attr d a \<noteq> None) \<and> collides s d a (getattr d a)) \<or>
         (\<exists>s3 d4 v. Document_save_row cfg s d = Inr (s3, d4) \<and> old_attr d a = Some v \<and>
            collides s3 d a v)"
proof (cases n)
  case 0
  with err show ?thesis by simp
next
  case (Suc m)
  show ?thesis
  proof (cases "Document_save_row cfg s d")
    case (Inl e)
    with err Suc have "e = collision_of a" by simp
    with Inl Document_save_row_collision [of cfg s d a] show ?thesis by simp
  next
    case (Inr p)
    obtain s3 d4 where p: "p = (s3, d4)" by (cases p)
    with Inr have row: "Document_save_row cfg s d = Inr (s3, d4)" by simp
    note fields = Document_save_row_fields [OF row]
    note oldk = Document_save_row_old [OF row]
    have nd: "collision_of a \<noteq> DoesNotExist" by (cases a) simp_all
    from err Suc row nd obtain c t sl where
      t: "attr_for_redirect s3 d4 Title (REDIRECT_TITLE cfg) = Some t"
      and sl: "attr_for_redirect s3 d4 Slug (REDIRECT_SLUG cfg) = Some sl"
      and alt: "Document_save m cfg s3 (new_redirect_document d4 t sl) = Some (Inl (collision_of a)) \<or>
          (\<exists>s4 doc. Document_save m cfg s3 (new_redirect_document d4 t sl) = Some (Inr (s4, doc)) \<and>
             Revision_save m cfg s4 (new_redirect_revision cfg d4 doc c) doc = Some (Inl (collision_of a)))"
      by (auto simp: Let_def split: sum.splits option.splits if_splits dest: get_current_revision_error)
    let ?nd = "new_redirect_document d4 t sl"
    have ndp: "doc_id ?nd = None" "parent ?nd = None" "old_slug ?nd = None" "old_title ?nd = None"
      "current_revision ?nd = None" "doc_locale ?nd = doc_locale d4"
      "title ?nd = t" "slug ?nd = sl"
      by (simp_all add: new_redirect_document_def)
    from alt show ?thesis
    proof
      assume e: "Document_save m cfg s3 ?nd = Some (Inl (collision_of a))"
      from Document_save_unrenamed_error [OF ndp(3,4) e] nd
      have "Document_save_row cfg s3 ?nd = Inl (collision_of a)" by simp
      from Document_save_row_collision [OF this] have "collides s3 ?nd a (getattr ?nd a)" by simp
      then have c4: "collides s3 d a (getattr ?nd a)"
        using collides_locale [of ?nd d s3 a] ndp(6) fields by simp
      have v: "attr_for_redirect s3 d4 a (case a of Title \<Rightarrow> REDIRECT_TITLE cfg | Slug \<Rightarrow> REDIRECT_SLUG cfg) =
            Some (getattr ?nd a)"
        using t sl ndp(7,8) by (cases a) simp_all
      show ?thesis
      proof (cases "old_attr d4 a")
        case None
        from attr_for_redirect_free [OF v None] c4 collides_locale [of d4 d s3 a] fields
        show ?thesis by simp
      next
        case (Some ov)
        with v have "getattr ?nd a = ov" by (simp add: attr_for_redirect_def)
        moreover from Some oldk have "old_attr d a = Some ov" by (cases a) simp_all
        ultimately show ?thesis using row c4 by auto
      qed
    next
      assume "\<exists>s4 doc. Document_save m cfg s3 ?nd = Some (Inr (s4, doc)) \<and>
             Revision_save m cfg s4 (new_redirect_revision cfg d4 doc c) doc = Some (Inl (collision_of a))"
      then obtain s4 doc where a1: "Document_save m cfg s3 ?nd = Some (Inr (s4, doc))"
        and b1: "Revision_save m cfg s4 (new_redirect_revision cfg d4 doc c) doc = Some (Inl (collision_of a))"
        by blast
      have "Document_save_row cfg s3 ?nd = Inr (s4, doc)"
        using a1 by (intro Document_save_unrenamed_Inr [where n = m]) (simp_all add: ndp)
      from Document_save_row_new [OF this ndp(1,2)]
      have doc: "doc = ?nd\<lparr>doc_id := Some (next_doc_id s3),
                  is_template := startswith (title ?nd) (TEMPLATE_TITLE_PREFIX cfg),
                  is_localizable := (is_localizable ?nd \<and> doc_locale ?nd = WIKI_DEFAULT_LANGUAGE cfg)\<rparr>"
        by simp
      have dk: "doc_id doc \<noteq> None" "parent doc = None" "current_revision doc = None"
        "old_slug doc = None" "old_title doc = None"
        by (simp_all add: doc ndp)
      have rr: "based_on (new_redirect_revision cfg d4 doc c) = None"
        "is_approved (new_redirect_revision cfg d4 doc c)"
        by (simp_all add: new_redirect_revision_def)
      from Revision_save_redirect_no_collision [OF rr dk, of m cfg s4 a] b1 show ?thesis by simp
    qed
  qed
qed

lemma ex_A_retitling_eq: "ex_A_retitling = ex_A\<lparr>title := ''Bar'', old_title := Some ''Foo''\<rparr>"
  by (simp add: ex_A_retitling_def Document_setattr_def truthy_def lower_def lower_char_def ex_defs)

lemma ex_retitle_run:
  "Document_save (Suc (Suc (Suc 0))) ex_cfg ex_db ex_A_retitling = Some (Inr (ex_db_retitled, ex_A_retitled))"
proof -
  let ?d = "ex_A\<lparr>title := ''Bar'', old_title := Some ''Foo''\<rparr>"
  let ?s3 = "ex_db\<lparr>documents := [ex_A_retitled, ex_B]\<rparr>"
  have row: "Document_save_row ex_cfg ex_db ?d = Inr (?s3, ?d)"
    by (simp add: save_row_defs ex_A_retitled_def ex_defs)
  have gc: "get_current_revision ?s3 ?d = Inr (Some ex_R1)"
    by (simp add: get_current_revision_def get_revision_def ex_defs)
  have d1: "decimal 1 = ''1''"
    by (simp add: decimal.simps digit_def char_of_def bit_0)
  have f1: "format_template (REDIRECT_SLUG ex_cfg) (getattr ?d Slug) 1 = ''foo-redirect-1''"
    using d1 by (simp add: format_template_def ex_defs)
  have nc: "\<not> collides ?s3 ?d Slug ''foo-redirect-1''"
    by (simp add: collides_def ex_A_retitled_def ex_defs)
  from nc f1 have "\<not> collides ?s3 ?d Slug (format_template (REDIRECT_SLUG ex_cfg) (getattr ?d Slug) 1)"
    by simp
  from unique_attr_loop_finds [OF this, of 1]
  have "unique_attr_loop ?s3 ?d Slug (REDIRECT_SLUG ex_cfg) 1 =
        Some (format_template (REDIRECT_SLUG ex_cfg) (getattr ?d Slug) 1)" by simp
  then have "unique_attr_loop ?s3 ?d Slug (REDIRECT_SLUG ex_cfg) 1 = Some ''foo-redirect-1''"
    by (simp only: f1)
  then have sl: "attr_for_redirect ?s3 ?d Slug (REDIRECT_SLUG ex_cfg) = Some ''foo-redirect-1''"
    by (simp add: attr_for_redirect_def unique_attr_def ex_defs)
  have t: "attr_for_redirect ?s3 ?d Title (REDIRECT_TITLE ex_cfg) = Some ''Foo''"
    by (simp add: attr_for_redirect_def)
  let ?nd = "new_redirect_document ?d ''Foo'' ''foo-redirect-1''"
  let ?doc = "ex_redirect_Foo\<lparr>current_revision := None, html := []\<rparr>"
  let ?s4 = "ex_db\<lparr>documents := [ex_A_retitled, ex_B, ?doc]\<rparr>"
  have ndold: "old_slug ?nd = None" "old_title ?nd = None"
    by (simp_all add: new_redirect_document_def)
  have row2: "Document_save_row ex_cfg ?s3 ?nd = Inr (?s4, ?doc)"
    by (simp add: save_row_defs new_redirect_document_def next_doc_id_def key_of_def
        ex_redirect_Foo_def ex_A_retitled_def ex_defs)
  have gc2: "get_current_revision ?s4 ?doc = Inr None"
    by (simp add: get_current_revision_def)
  have a: "Document_save (Suc (Suc 0)) ex_cfg ?s3 ?nd = Some (Inr (?s4, ?doc))"
    unfolding Document_save_unrenamed [OF ndold] by (simp add: row2 gc2)
  let ?rr = "new_redirect_revision ex_cfg ?d ?doc ex_R1"
  let ?s5 = "?s4\<lparr>revisions := [ex_R1, ex_R2, ex_R3, ex_R_redirect_Bar]\<rparr>"
  have clean: "based_on_is_clean ?s4 ?rr ?doc = Inr (None, True)"
    by (simp add: based_on_is_clean_def original_def get_parent_def new_redirect_revision_def ex_redirect_Foo_def)
  have rrow: "save_revision_row ?s4 ?rr = (?s5, ex_R_redirect_Bar)"
    by (simp add: save_revision_row_def new_redirect_revision_def next_rev_id_def key_of_def
        Let_def ex_R_redirect_Bar_def ex_redirect_Foo_def ex_defs)
  have gc3: "get_current_revision ?s5 ?doc = Inr None"
    by (simp add: get_current_revision_def)
  have app: "is_approved ex_R_redirect_Bar" by (simp add: ex_R_redirect_Bar_def)
  have br: "Revision_save_branch ?s5 ex_R_redirect_Bar ?doc = Inr Update_current"
    by (simp add: Revision_save_branch_def gc3 app)
  have contr: "new_contributors ?s5 ?doc None = {7}"
    by (simp add: new_contributors_def revisions_of_def rejected_def ex_redirect_Foo_def
        ex_R_redirect_Bar_def ex_defs)
  let ?s6 = "?s5\<lparr>contributors := {(1, 7), (2, 8), (3, 7)}\<rparr>"
  have c0: "contributors ?s5 = {(1, 7), (2, 8)}" by (simp add: ex_defs)
  have cu: "contributors ?s5 \<union> (\<lambda>u. (3, u)) ` new_contributors ?s5 ?doc None = {(1, 7), (2, 8), (3, 7)}"
    unfolding contr c0 by auto
  have s6: "?s5\<lparr>contributors := contributors ?s5 \<union> (\<lambda>u. (3, u)) ` new_contributors ?s5 ?doc None\<rparr> = ?s6"
    by (simp only: cu)
  have d3: "(?doc\<lparr>html := content_parsed ex_cfg ex_R_redirect_Bar ?doc\<rparr>)\<lparr>current_revision := rev_id ex_R_redirect_Bar\<rparr> = ex_redirect_Foo"
    by (simp add: content_parsed_def ex_redirect_Foo_def ex_R_redirect_Bar_def ex_defs)
  have rold: "old_slug ex_redirect_Foo = None" "old_title ex_redirect_Foo = None"
    by (simp_all add: ex_redirect_Foo_def)
  have row3: "Document_save_row ex_cfg ?s6 ex_redirect_Foo = Inr (ex_db_retitled, ex_redirect_Foo)"
    by (simp add: save_row_defs ex_db_retitled_def ex_redirect_Foo_def ex_A_retitled_def ex_defs)
  have gc4: "get_current_revision ex_db_retitled ex_redirect_Foo = Inr (Some ex_R_redirect_Bar)"
    by (simp add: get_current_revision_def get_revision_def ex_db_retitled_def ex_redirect_Foo_def
        ex_R_redirect_Bar_def ex_defs)
  have inner: "Document_save (Suc 0) ex_cfg ?s6 ex_redirect_Foo = Some (Inr (ex_db_retitled, ex_redirect_Foo))"
    unfolding Document_save_unrenamed [OF rold] by (simp only: row3 gc4 sum.case split_conv)
  have did: "doc_id ?doc = Some 3" by (simp add: ex_redirect_Foo_def)
  have nrdy: "\<not> is_ready_for_localization ex_R_redirect_Bar" by (simp add: ex_R_redirect_Bar_def)
  have b: "Revision_save (Suc (Suc 0)) ex_cfg ?s4 ?rr ?doc = Some (Inr (ex_db_retitled, ex_R_redirect_Bar, ex_redirect_Foo))"
    unfolding Revision_save.simps
    by (simp only: clean rrow br gc3 did nrdy s6 d3 inner Let_def sum.case split_conv
        save_branch.case option.case simp_thms if_False if_True)
  have ch: "(old_slug ?d \<noteq> None \<or> old_title ?d \<noteq> None) = True" by simp
  have "Document_save (Suc (Suc (Suc 0))) ex_cfg ex_db ?d = Some (Inr (ex_db_retitled, ?d\<lparr>old_slug := None, old_title := None\<rparr>))"
    unfolding Document_save.simps(2) [of "Suc (Suc 0)" ex_cfg ex_db]
    by (simp only: row gc t sl a b ch Let_def sum.case split_conv option.case simp_thms if_True)
  moreover have "?d\<lparr>old_slug := None, old_title := None\<rparr> = ex_A_retitled"
    by (simp add: ex_A_retitled_def ex_defs)
  ultimately show ?thesis by (simp only: ex_A_retitling_eq)
qed

lemma ex_rename_search_run:
  "Document_save (Suc (Suc (Suc 0))) ex_cfg ex_db7 ex_A_renamed = Some (Inr (ex_db7_bar, ex_A_bar))"
proof -
  let ?d = "ex_A\<lparr>slug := ''bar'', old_slug := Some ''foo''\<rparr>"
  let ?s3 = "ex_db\<lparr>documents := [ex_A_bar, ex_B, ex_C]\<rparr>"
  have row: "Document_save_row ex_cfg ex_db7 ?d = Inr (?s3, ?d)"
    by (simp add: save_row_defs ex_A_bar_def ex_db7_def ex_C_def ex_defs)
  have gc: "get_current_revision ?s3 ?d = Inr (Some ex_R1)"
    by (simp add: get_current_revision_def get_revision_def ex_defs)
  have d1: "decimal 1 = ''1''" and d2: "decimal 2 = ''2''"
    by (simp_all add: decimal.simps digit_def char_of_def bit_0)
  let ?T = "REDIRECT_TITLE ex_cfg"
  have f1: "format_template ?T (getattr ?d Title) 1 = ''Foo Redirect 1''"
    and f2: "format_template ?T (getattr ?d Title) 2 = ''Foo Redirect 2''"
    using d1 by (simp_all add: format_template_def d2 ex_defs)
  have c1: "collides ?s3 ?d Title ''Foo Redirect 1''"
    by (simp add: collides_def ex_A_bar_def ex_C_def ex_defs)
  have c2: "\<not> collides ?s3 ?d Title ''Foo Redirect 2''"
    by (simp add: collides_def ex_A_bar_def ex_C_def ex_defs)
  have below: "\<forall>j. 1 \<le> j \<and> j < 2 \<longrightarrow> collides ?s3 ?d Title (format_template ?T (getattr ?d Title) j)"
  proof (intro allI impI)
    fix j :: nat assume "1 \<le> j \<and> j < 2"
    then have "j = 1" by simp
    with c1 f1 show "collides ?s3 ?d Title (format_template ?T (getattr ?d Title) j)" by simp
  qed
  from c2 f2 have "\<not> collides ?s3 ?d Title (format_template ?T (getattr ?d Title) 2)" by simp
  from unique_attr_loop_finds [OF this _ below]
  have "unique_attr_loop ?s3 ?d Title ?T 1 = Some (format_template ?T (getattr ?d Title) 2)"
    by simp
  then have "unique_attr_loop ?s3 ?d Title ?T 1 = Some ''Foo Redirect 2''"
    by (simp only: f2)
  then have t: "attr_for_redirect ?s3 ?d Title (REDIRECT_TITLE ex_cfg) = Some ''Foo Redirect 2''"
    by (simp add: attr_for_redirect_def unique_attr_def ex_defs)
  have sl: "attr_for_redirect ?s3 ?d Slug (REDIRECT_SLUG ex_cfg) = Some ''foo''"
    by (simp add: attr_for_redirect_def)
  let ?nd = "new_redirect_document ?d ''Foo Redirect 2'' ''foo''"
  let ?doc = "ex_redirect_2\<lparr>current_revision := None, html := []\<rparr>"
  let ?s4 = "ex_db\<lparr>documents := [ex_A_bar, ex_B, ex_C, ?doc]\<rparr>"
  have ndold: "old_slug ?nd = None" "old_title ?nd = None"
    by (simp_all add: new_redirect_document_def)
  have row2: "Document_save_row ex_cfg ?s3 ?nd = Inr (?s4, ?doc)"
    by (simp add: save_row_defs new_redirect_document_def next_doc_id_def key_of_def
        ex_redirect_2_def ex_A_bar_def ex_C_def ex_defs)
  have gc2: "get_current_revision ?s4 ?doc = Inr None"
    by (simp add: get_current_revision_def)
  have a: "Document_save (Suc (Suc 0)) ex_cfg ?s3 ?nd = Some (Inr (?s4, ?doc))"
    unfolding Document_save_unrenamed [OF ndold] by (simp add: row2 gc2)
  let ?rr = "new_redirect_revision ex_cfg ?d ?doc ex_R1"
  let ?s5 = "?s4\<lparr>revisions := [ex_R1, ex_R2, ex_R3, ex_R_redirect_2]\<rparr>"
  have clean: "based_on_is_clean ?s4 ?rr ?doc = Inr (None, True)"
    by (simp add: based_on_is_clean_def original_def get_parent_def new_redirect_revision_def ex_redirect_2_def)
  have rrow: "save_revision_row ?s4 ?rr = (?s5, ex_R_redirect_2)"
    by (simp add: save_revision_row_def new_redirect_revision_def next_rev_id_def key_of_def
        Let_def ex_R_redirect_2_def ex_redirect_2_def ex_defs)
  have gc3: "get_current_revision ?s5 ?doc = Inr None"
    by (simp add: get_current_revision_def)
  have app: "is_approved ex_R_redirect_2" by (simp add: ex_R_redirect_2_def)
  have br: "Revision_save_branch ?s5 ex_R_redirect_2 ?doc = Inr Update_current"
    by (simp add: Revision_save_branch_def gc3 app)
  have contr: "new_contributors ?s5 ?doc None = {7}"
    by (simp add: new_contributors_def revisions_of_def rejected_def ex_redirect_2_def
        ex_R_redirect_2_def ex_defs)
  let ?s6 = "?s5\<lparr>contributors := {(1, 7), (2, 8), (4, 7)}\<rparr>"
  have c0: "contributors ?s5 = {(1, 7), (2, 8)}" by (simp add: ex_defs)
  have cu: "contributors ?s5 \<union> (\<lambda>u. (4, u)) ` new_contributors ?s5 ?doc None = {(1, 7), (2, 8), (4, 7)}"
    unfolding contr c0 by auto
  have s6: "?s5\<lparr>contributors := contributors ?s5 \<union> (\<lambda>u. (4, u)) ` new_contributors ?s5 ?doc None\<rparr> = ?s6"
    by (simp only: cu)
  have d3: "(?doc\<lparr>html := content_parsed ex_cfg ex_R_redirect_2 ?doc\<rparr>)\<lparr>current_revision := rev_id ex_R_redirect_2\<rparr> = ex_redirect_2"
    by (simp add: content_parsed_def ex_redirect_2_def ex_R_redirect_2_def ex_defs)
  have rold: "old_slug ex_redirect_2 = None" "old_title ex_redirect_2 = None"
    by (simp_all add: ex_redirect_2_def)
  have row3: "Document_save_row ex_cfg ?s6 ex_redirect_2 = Inr (ex_db7_bar, ex_redirect_2)"
    by (simp add: save_row_defs ex_db7_bar_def ex_redirect_2_def ex_A_bar_def ex_C_def ex_defs)
  have gc4: "get_current_revision ex_db7_bar ex_redirect_2 = Inr (Some ex_R_redirect_2)"
    by (simp add: get_current_revision_def get_revision_def ex_db7_bar_def ex_redirect_2_def
        ex_R_redirect_2_def ex_defs)
  have inner: "Document_save (Suc 0) ex_cfg ?s6 ex_redirect_2 = Some (Inr (ex_db7_bar, ex_redirect_2))"
    unfolding Document_save_unrenamed [OF rold] by (simp only: row3 gc4 sum.case split_conv)
  have did: "doc_id ?doc = Some 4" by (simp add: ex_redirect_2_def)
  have nrdy: "\<not> is_ready_for_localization ex_R_redirect_2" by (simp add: ex_R_redirect_2_def)
  have b: "Revision_save (Suc (Suc 0)) ex_cfg ?s4 ?rr ?doc = Some (Inr (ex_db7_bar, ex_R_redirect_2, ex_redirect_2))"
    unfolding Revision_save.simps
    by (simp only: clean rrow br gc3 did nrdy s6 d3 inner Let_def sum.case split_conv
        save_branch.case option.case simp_thms if_False if_True)
  have ch: "(old_slug ?d \<noteq> None \<or> old_title ?d \<noteq> None) = True" by simp
  have "Document_save (Suc (Suc (Suc 0))) ex_cfg ex_db7 ?d = Some (Inr (ex_db7_bar, ?d\<lparr>old_slug := None, old_title := None\<rparr>))"
    unfolding Document_save.simps(2) [of "Suc (Suc 0)" ex_cfg ex_db7]
    by (simp only: row gc t sl a b ch Let_def sum.case split_conv option.case simp_thms if_True)
  moreover have "?d\<lparr>old_slug := None, old_title := None\<rparr> = ex_A_bar"
    by (simp add: ex_A_bar_def ex_defs)
  ultimately show ?thesis by (simp only: ex_A_renamed_eq)
qed

text \<open>
  The marker in the redirect's revision is written around the title the document has when
  it is saved (line 277). When the title is what changed, that is the new title and not
  the original one: renaming A from Foo to Bar creates a redirect titled Foo whose
  revision points to Bar.
\<close>

theorem redirect_content_is_new_title:
  "title ex_A = ''Foo'' \<and> old_title ex_A_retitling = Some ''Foo'' \<and> title ex_A_retitling = ''Bar'' \<and>
   current_revision ex_A_retitling = Some 1 \<and> get_revision ex_db 1 = Inr ex_R1 \<and> is_approved ex_R1 \<and>
   Document_save (Suc (Suc (Suc 0))) ex_cfg ex_db ex_A_retitling = Some (Inr (ex_db_retitled, ex_A_retitled)) \<and>
   documents ex_db_retitled = [ex_A_retitled, ex_B] @ [ex_redirect_Foo] \<and>
   revisions ex_db_retitled = revisions ex_db @ [ex_R_redirect_Bar] \<and>
   title ex_redirect_Foo = ''Foo'' \<and>
   content ex_R_redirect_Bar = fst (REDIRECT_CONTENT ex_cfg) @ ''Bar'' @ snd (REDIRECT_CONTENT ex_cfg) \<and>
   content ex_R_redirect_Bar \<noteq> fst (REDIRECT_CONTENT ex_cfg) @ ''Foo'' @ snd (REDIRECT_CONTENT ex_cfg)"
proof -
  have facts: "title ex_A = ''Foo'' \<and> old_title ex_A_retitling = Some ''Foo'' \<and> title ex_A_retitling = ''Bar'' \<and>
   current_revision ex_A_retitling = Some 1 \<and> get_revision ex_db 1 = Inr ex_R1 \<and> is_approved ex_R1"
    by (simp add: ex_A_retitling_eq get_revision_def ex_defs)
  have rest: "documents ex_db_retitled = [ex_A_retitled, ex_B] @ [ex_redirect_Foo] \<and>
   revisions ex_db_retitled = revisions ex_db @ [ex_R_redirect_Bar] \<and>
   title ex_redirect_Foo = ''Foo'' \<and>
   content ex_R_redirect_Bar = fst (REDIRECT_CONTENT ex_cfg) @ ''Bar'' @ snd (REDIRECT_CONTENT ex_cfg) \<and>
   content ex_R_redirect_Bar \<noteq> fst (REDIRECT_CONTENT ex_cfg) @ ''Foo'' @ snd (REDIRECT_CONTENT ex_cfg)"
    by (simp add: ex_db_retitled_def ex_redirect_Foo_def ex_R_redirect_Bar_def ex_defs)
  from facts ex_retitle_run rest show ?thesis by blast
qed

text \<open>
  C2. A save that returns, of a document with a current revision and a tracked old title
  or slug, has created exactly one document besides writing the document's own row: the
  redirect, in the document's locale, not localizable, of the document's category, under
  a key no row had, with the tracked old title or slug where there is one and with a
  title and a slug that no other document of the locale has. It has created exactly one
  revision: the redirect's, approved, its content the redirect marker around the title
  the renamed document is saved with, created and reviewed by the creator of the
  document's current revision, and current for the redirect. The tracking is cleared, so
  that saving the instance again creates no document and no revision. The save raises a
  collision only for the document's own new title or slug, or for a tracked old value
  that another row of the locale still has once the document's row is written: never for
  a name generated for the redirect. With templates that carry the number token the save
  does return.
\<close>

theorem rename_creates_one_redirect:
  assumes cur: "current_revision d = Some c"
    and ren: "old_slug d \<noteq> None \<or> old_title d \<noteq> None"
  shows "(\<forall>s' d'. Document_save n cfg s d = Some (Inr (s', d')) \<longrightarrow>
            (\<exists>(s3::db) x y cr.
               revisions s3 = revisions s \<and>
               (map doc_id (documents s3) = map doc_id (documents s) \<or>
                map doc_id (documents s3) = map doc_id (documents s) @ [doc_id d']) \<and>
               documents s' = documents s3 @ [x] \<and> revisions s' = revisions s @ [y] \<and>
               doc_id x \<notin> set (map doc_id (documents s3)) \<and>
               doc_locale x = doc_locale d \<and> \<not> is_localizable x \<and> category x = category d' \<and>
               (\<forall>t. old_title d = Some t \<longrightarrow> title x = t) \<and>
               (\<forall>sl. old_slug d = Some sl \<longrightarrow> slug x = sl) \<and>
               (\<forall>z \<in> set (documents s3). doc_locale z = doc_locale x \<longrightarrow>
                  title z \<noteq> title x \<and> slug z \<noteq> slug x) \<and>
               current_revision x = rev_id y \<and> rev_id y \<noteq> None \<and>
               (\<forall>z \<in> set (revisions s). rev_id z \<noteq> rev_id y) \<and>
               document y = doc_id x \<and> is_approved y \<and>
               content y = fst (REDIRECT_CONTENT cfg) @ title d @ snd (REDIRECT_CONTENT cfg) \<and>
               get_revision s c = Inr cr \<and> creator y = creator cr \<and> reviewer y = Some (creator cr)) \<and>
            old_slug d' = None \<and> old_title d' = None \<and>
            (\<forall>m s'' d''. Document_save m cfg s' d' = Some (Inr (s'', d'')) \<longrightarrow>
               revisions s'' = revisions s' \<and> map doc_id (documents s'') = map doc_id (documents s'))) \<and>
         (\<forall>a. Document_save n cfg s d = Some (Inl (collision_of a)) \<longrightarrow>
            ((doc_id d = None \<or> old_attr d a \<noteq> None) \<and> collides s d a (getattr d a)) \<or>
            (\<exists>s3 d4 v. Document_save_row cfg s d = Inr (s3, d4) \<and> old_attr d a = Some v \<and>
               collides s3 d a v)) \<and>
         (Number \<in> set (REDIRECT_TITLE cfg) \<and> Number \<in> set (REDIRECT_SLUG cfg) \<longrightarrow>
            (\<forall>m. Document_save (Suc (Suc (Suc m))) cfg s d \<noteq> None))"
proof -
  have created: "\<forall>s' d'. Document_save n cfg s d = Some (Inr (s', d')) \<longrightarrow>
            (\<exists>(s3::db) x y cr.
               revisions s3 = revisions s \<and>
               (map doc_id (documents s3) = map doc_id (documents s) \<or>
                map doc_id (documents s3) = map doc_id (documents s) @ [doc_id d']) \<and>
               documents s' = documents s3 @ [x] \<and> revisions s' = revisions s @ [y] \<and>
               doc_id x \<notin> set (map doc_id (documents s3)) \<and>
               doc_locale x = doc_locale d \<and> \<not> is_localizable x \<and> category x = category d' \<and>
               (\<forall>t. old_title d = Some t \<longrightarrow> title x = t) \<and>
               (\<forall>sl. old_slug d = Some sl \<longrightarrow> slug x = sl) \<and>
               (\<forall>z \<in> set (documents s3). doc_locale z = doc_locale x \<longrightarrow>
                  title z \<noteq> title x \<and> slug z \<noteq> slug x) \<and>
               current_revision x = rev_id y \<and> rev_id y \<noteq> None \<and>
               (\<forall>z \<in> set (revisions s). rev_id z \<noteq> rev_id y) \<and>
               document y = doc_id x \<and> is_approved y \<and>
               content y = fst (REDIRECT_CONTENT cfg) @ title d @ snd (REDIRECT_CONTENT cfg) \<and>
               get_revision s c = Inr cr \<and> creator y = creator cr \<and> reviewer y = Some (creator cr)) \<and>
            old_slug d' = None \<and> old_title d' = None \<and>
            (\<forall>m s'' d''. Document_save m cfg s' d' = Some (Inr (s'', d'')) \<longrightarrow>
               revisions s'' = revisions s' \<and> map doc_id (documents s'') = map doc_id (documents s'))"
  proof (intro allI impI)
    fix s' d' assume run: "Document_save n cfg s d = Some (Inr (s', d'))"
    note r = rename_redirect_created [OF run cur ren]
    show "(\<exists>(s3::db) x y cr.
            revisions s3 = revisions s \<and>
            (map doc_id (documents s3) = map doc_id (documents s) \<or>
             map doc_id (documents s3) = map doc_id (documents s) @ [doc_id d']) \<and>
            documents s' = documents s3 @ [x] \<and> revisions s' = revisions s @ [y] \<and>
            doc_id x \<notin> set (map doc_id (documents s3)) \<and>
            doc_locale x = doc_locale d \<and> \<not> is_localizable x \<and> category x = category d' \<and>
            (\<forall>t. old_title d = Some t \<longrightarrow> title x = t) \<and>
            (\<forall>sl. old_slug d = Some sl \<longrightarrow> slug x = sl) \<and>
            (\<forall>z \<in> set (documents s3). doc_locale z = doc_locale x \<longrightarrow>
               title z \<noteq> title x \<and> slug z \<noteq> slug x) \<and>
            current_revision x = rev_id y \<and> rev_id y \<noteq> None \<and>
            (\<forall>z \<in> set (revisions s). rev_id z \<noteq> rev_id y) \<and>
            document y = doc_id x \<and> is_approved y \<and>
            content y = fst (REDIRECT_CONTENT cfg) @ title d @ snd (REDIRECT_CONTENT cfg) \<and>
            get_revision s c = Inr cr \<and> creator y = creator cr \<and> reviewer y = Some (creator cr)) \<and>
         old_slug d' = None \<and> old_title d' = None \<and>
         (\<forall>m s'' d''. Document_save m cfg s' d' = Some (Inr (s'', d'')) \<longrightarrow>
            revisions s'' = revisions s' \<and> map doc_id (documents s'') = map doc_id (documents s'))"
      by (rule conjI [OF r [THEN conjunct1]
            conjI [OF r [THEN conjunct2, THEN conjunct1]
              conjI [OF r [THEN conjunct2, THEN conjunct2, THEN conjunct1]
                r [THEN conjunct2, THEN conjunct2, THEN conjunct2, THEN conjunct1]]]])
  qed
  have coll: "\<forall>a. Document_save n cfg s d = Some (Inl (collision_of a)) \<longrightarrow>
            ((doc_id d = None \<or> old_attr d a \<noteq> None) \<and> collides s d a (getattr d a)) \<or>
            (\<exists>s3 d4 v. Document_save_row cfg s d = Inr (s3, d4) \<and> old_attr d a = Some v \<and>
               collides s3 d a v)"
    using Document_save_collision by blast
  have ret: "(Number \<in> set (REDIRECT_TITLE cfg) \<and> Number \<in> set (REDIRECT_SLUG cfg) \<longrightarrow>
            (\<forall>m. Document_save (Suc (Suc (Suc m))) cfg s d \<noteq> None))"
    using Document_save_returns by blast
  show ?thesis by (rule conjI [OF created conjI [OF coll ret]])
qed

theorem rename_creates_one_redirect_witness:
  "current_revision ex_A_renamed = Some 1 \<and> old_slug ex_A_renamed = Some ''foo'' \<and>
   Document_save (Suc (Suc (Suc 0))) ex_cfg ex_db ex_A_renamed = Some (Inr (ex_db_bar, ex_A_bar)) \<and>
   old_slug ex_A_bar = None \<and> old_title ex_A_bar = None \<and>
   documents ex_db_bar = [ex_A_bar, ex_B] @ [ex_redirect] \<and>
   revisions ex_db_bar = revisions ex_db @ [ex_R_redirect] \<and>
   slug ex_redirect = ''foo'' \<and> content ex_R_redirect = ''REDIRECT [[Foo]]'' \<and>
   Document_save (Suc (Suc (Suc 0))) ex_cfg ex_db7 ex_A_renamed = Some (Inr (ex_db7_bar, ex_A_bar)) \<and>
   collides ex_db7 ex_A_renamed Title ''Foo Redirect 1'' \<and>
   documents ex_db7_bar = [ex_A_bar, ex_B, ex_C] @ [ex_redirect_2] \<and>
   title ex_redirect_2 = ''Foo Redirect 2'' \<and> slug ex_redirect_2 = ''foo'' \<and>
   current_revision ex_A_retitling = Some 1 \<and> old_title ex_A_retitling = Some ''Foo'' \<and>
   Document_save (Suc (Suc (Suc 0))) ex_cfg ex_db ex_A_retitling = Some (Inr (ex_db_retitled, ex_A_retitled)) \<and>
   documents ex_db_retitled = [ex_A_retitled, ex_B] @ [ex_redirect_Foo] \<and>
   title ex_redirect_Foo = ''Foo'' \<and> slug ex_redirect_Foo = ''foo-redirect-1'' \<and>
   content ex_R_redirect_Bar = ''REDIRECT [[Bar]]'' \<and>
   old_slug ex_A_retitled = None \<and> old_title ex_A_retitled = None"
proof -
  have cur: "current_revision ex_A_renamed = Some 1"
    by (simp add: ex_A_renamed_eq ex_defs)
  have tracked: "old_slug ex_A_renamed = Some ''foo''"
    by (simp add: ex_A_renamed_eq)
  then have ren: "old_slug ex_A_renamed \<noteq> None \<or> old_title ex_A_renamed \<noteq> None"
    by simp
  note spec = rename_creates_one_redirect [OF cur ren, of "Suc (Suc (Suc 0))" ex_cfg ex_db,
      THEN conjunct1, rule_format, OF ex_rename_run]
  have old: "old_slug ex_A_bar = None \<and> old_title ex_A_bar = None"
    by (rule conjI [OF spec [THEN conjunct2, THEN conjunct1]
          spec [THEN conjunct2, THEN conjunct2, THEN conjunct1]])
  have rest: "documents ex_db_bar = [ex_A_bar, ex_B] @ [ex_redirect] \<and>
   revisions ex_db_bar = revisions ex_db @ [ex_R_redirect] \<and>
   slug ex_redirect = ''foo'' \<and> content ex_R_redirect = ''REDIRECT [[Foo]]''"
    by (simp add: ex_db_bar_def ex_redirect_def ex_R_redirect_def ex_defs)
  have search: "collides ex_db7 ex_A_renamed Title ''Foo Redirect 1'' \<and>
   documents ex_db7_bar = [ex_A_bar, ex_B, ex_C] @ [ex_redirect_2] \<and>
   title ex_redirect_2 = ''Foo Redirect 2'' \<and> slug ex_redirect_2 = ''foo''"
    by (simp add: collides_def ex_A_renamed_eq ex_db7_def ex_C_def ex_db7_bar_def ex_redirect_2_def ex_defs)
  have cur2: "current_revision ex_A_retitling = Some 1"
    by (simp add: ex_A_retitling_eq ex_defs)
  have tracked2: "old_title ex_A_retitling = Some ''Foo''"
    by (simp add: ex_A_retitling_eq)
  then have ren2: "old_slug ex_A_retitling \<noteq> None \<or> old_title ex_A_retitling \<noteq> None"
    by simp
  note spec2 = rename_creates_one_redirect [OF cur2 ren2, of "Suc (Suc (Suc 0))" ex_cfg ex_db,
      THEN conjunct1, rule_format, OF ex_retitle_run]
  have old2: "old_slug ex_A_retitled = None \<and> old_title ex_A_retitled = None"
    by (rule conjI [OF spec2 [THEN conjunct2, THEN conjunct1]
          spec2 [THEN conjunct2, THEN conjunct2, THEN conjunct1]])
  have rest2: "documents ex_db_retitled = [ex_A_retitled, ex_B] @ [ex_redirect_Foo] \<and>
   title ex_redirect_Foo = ''Foo'' \<and> slug ex_redirect_Foo = ''foo-redirect-1'' \<and>
   content ex_R_redirect_Bar = ''REDIRECT [[Bar]]''"
    by (simp add: ex_db_retitled_def ex_redirect_Foo_def ex_R_redirect_Bar_def)
  from cur tracked ex_rename_run old rest ex_rename_search_run search
    cur2 tracked2 ex_retitle_run rest2 old2
  show ?thesis by blast
qed

subsection \<open>Saving an approved revision\<close>

lemma save_document_row_own_rows:
  assumes "save_document_row s d = (s', d')"
  shows "\<forall>x \<in> set (documents s'). doc_id x = doc_id d' \<longrightarrow> x = stored d'"
proof (cases "doc_id d")
  case None
  with assms have d': "d' = d\<lparr>doc_id := Some (next_doc_id s)\<rparr>"
    and s': "documents s' = documents s @ [stored d']"
    by (auto simp: save_document_row_def Let_def)
  show ?thesis
  proof (intro ballI impI)
    fix x assume x: "x \<in> set (documents s')" and k: "doc_id x = doc_id d'"
    from k d' have "doc_id x = Some (next_doc_id s)" by simp
    with next_doc_id_fresh [of x s] have "x \<notin> set (documents s)" by blast
    with x s' show "x = stored d'" by simp
  qed
next
  case (Some k)
  show ?thesis
  proof (cases "\<exists>x \<in> set (documents s). doc_id x = Some k")
    case True
    with assms Some have d': "d' = d"
      and s': "documents s' = map (\<lambda>x. if doc_id x = Some k then stored d else x) (documents s)"
      by (auto simp: save_document_row_def)
    show ?thesis
    proof (intro ballI impI)
      fix x assume x: "x \<in> set (documents s')" and k: "doc_id x = doc_id d'"
      from x s' obtain y where y: "y \<in> set (documents s)"
        "x = (if doc_id y = Some k then stored d else y)" by auto
      with k d' Some show "x = stored d'" by (cases "doc_id y = Some k") simp_all
    qed
  next
    case False
    with assms Some have d': "d' = d" and s': "documents s' = documents s @ [stored d]"
      by (auto simp: save_document_row_def)
    show ?thesis
    proof (intro ballI impI)
      fix x assume x: "x \<in> set (documents s')" and k: "doc_id x = doc_id d'"
      from k d' Some False have "x \<notin> set (documents s)" by auto
      with x s' d' show "x = stored d'" by simp
    qed
  qed
qed

lemma Document_save_row_own_rows:
  assumes run: "Document_save_row cfg s d = Inr (s', d')"
  shows "\<forall>x \<in> set (documents s'). doc_id x = doc_id d' \<longrightarrow> x = stored d'"
proof -
  from run obtain d1 s1 d2 s2 d3 where row: "save_document_row s2 d3 = (s', d')"
    by (rule Document_save_row_steps)
  then show ?thesis by (rule save_document_row_own_rows)
qed

lemma Document_save_own_rows:
  assumes run: "Document_save n cfg s d = Some (Inr (s', d'))"
  shows "\<forall>x \<in> set (documents s'). doc_id x = doc_id d' \<longrightarrow> x = stored d'"
proof -
  from Document_save_Inr [OF run] obtain s3 d4 x0 where row: "Document_save_row cfg s d = Inr (s3, d4)"
    and alt: "(s' = s3 \<and> d' = d4) \<or>
       (documents s' = documents s3 @ [x0] \<and> doc_id x0 = Some (next_doc_id s3) \<and>
        d' = d4\<lparr>old_slug := None, old_title := None\<rparr>)"
    by blast
  note own = Document_save_row_own_rows [OF row]
  from alt show ?thesis
  proof
    assume "s' = s3 \<and> d' = d4"
    with own show ?thesis by simp
  next
    assume h: "documents s' = documents s3 @ [x0] \<and> doc_id x0 = Some (next_doc_id s3) \<and>
        d' = d4\<lparr>old_slug := None, old_title := None\<rparr>"
    from Document_save_row_fields [OF row] obtain z where z: "z \<in> set (documents s3)" "doc_id z = doc_id d4"
      by auto
    with next_doc_id_fresh [of z s3] have ne: "doc_id d4 \<noteq> Some (next_doc_id s3)" by simp
    show ?thesis
    proof (intro ballI impI)
      fix x assume x: "x \<in> set (documents s')" and k: "doc_id x = doc_id d'"
      from k h ne have "x \<noteq> x0" by auto
      with x h have "x \<in> set (documents s3)" by simp
      with own k h have "x = stored d4" by simp
      with h show "x = stored d'" by (simp add: stored_def)
    qed
  qed
qed

lemma Document_save_fields:
  assumes run: "Document_save n cfg s d = Some (Inr (s', d'))"
  shows "title d' = title d \<and> slug d' = slug d \<and> doc_locale d' = doc_locale d \<and>
         current_revision d' = current_revision d \<and> html d' = html d \<and>
         latest_localizable_revision d' = latest_localizable_revision d \<and> parent d' = parent d \<and>
         (doc_id d \<noteq> None \<longrightarrow> doc_id d' = doc_id d) \<and> doc_id d' \<noteq> None"
proof -
  from Document_save_Inr [OF run] obtain s3 d4 where row: "Document_save_row cfg s d = Inr (s3, d4)"
    and alt: "d' = d4 \<or> d' = d4\<lparr>old_slug := None, old_title := None\<rparr>"
    by blast
  from alt Document_save_row_fields [OF row] show ?thesis by auto
qed

lemma save_revision_row_fields:
  assumes "save_revision_row s r = (s1, r1)"
  shows "r1 = r\<lparr>rev_id := rev_id r1\<rparr> \<and> rev_id r1 \<noteq> None \<and> (rev_id r \<noteq> None \<longrightarrow> rev_id r1 = rev_id r) \<and>
         documents s1 = documents s"
  using assms
  by (cases "rev_id r") (auto simp: save_revision_row_def Let_def split: if_splits)

lemma Revision_save_Inr:
  assumes run: "Revision_save n cfg s r d = Some (Inr (s', r', d'))"
  shows "\<exists>s1 b. save_revision_row s r = (s1, r') \<and> Revision_save_branch s1 r' d = Inr b \<and>
     (case b of
        Update_current \<Rightarrow>
          (\<exists>m k cur. doc_id d = Some k \<and>
             Document_save m cfg
               (s1\<lparr>contributors := contributors s1 \<union> (\<lambda>u. (k, u)) ` new_contributors s1 d cur\<rparr>)
               ((if is_ready_for_localization r' then d\<lparr>latest_localizable_revision := rev_id r'\<rparr> else d)
                  \<lparr>html := content_parsed cfg r'
                       (if is_ready_for_localization r' then d\<lparr>latest_localizable_revision := rev_id r'\<rparr> else d),
                   current_revision := rev_id r'\<rparr>) = Some (Inr (s', d')))
      | Update_localizable \<Rightarrow>
          (\<exists>m. Document_save m cfg s1 (d\<lparr>latest_localizable_revision := rev_id r'\<rparr>) = Some (Inr (s', d')))
      | No_update \<Rightarrow> s' = s1 \<and> d' = d)"
proof (cases n)
  case 0
  with run show ?thesis by simp
next
  case (Suc m)
  obtain s1 r1 where row: "save_revision_row s r = (s1, r1)" by (cases "save_revision_row s r")
  from run [unfolded Suc] row obtain b where br: "Revision_save_branch s1 r1 d = Inr b"
    by (auto simp del: Document_save.simps split: sum.splits if_splits)
  show ?thesis
  proof (cases b)
    case Update_current
    with run [unfolded Suc] row br show ?thesis
      by (auto simp: Let_def simp del: Document_save.simps split: sum.splits if_splits option.splits)
        blast+
  next
    case Update_localizable
    with run [unfolded Suc] row br show ?thesis
      by (auto simp: Let_def simp del: Document_save.simps split: sum.splits if_splits option.splits)
        blast+
  next
    case No_update
    with run [unfolded Suc] row br show ?thesis
      by (auto simp: Let_def simp del: Document_save.simps split: sum.splits if_splits option.splits)
  qed
qed

lemma Revision_save_branch_current:
  assumes br: "Revision_save_branch s1 r1 d = Inr b" and app: "is_approved r1"
    and newer: "current_revision d = None \<or> (\<exists>c. current_revision d = Some c \<and> Some c < rev_id r1)"
  shows "b = Update_current"
proof (cases "get_current_revision s1 d")
  case (Inl e)
  with br app show ?thesis by (simp add: Revision_save_branch_def)
next
  case (Inr cur)
  show ?thesis
  proof (cases cur)
    case None
    with br app Inr show ?thesis by (simp add: Revision_save_branch_def)
  next
    case (Some cc)
    with Inr have "rev_id cc = current_revision d \<and> current_revision d \<noteq> None"
      by (simp add: get_current_revision_Some)
    with newer have "rev_id cc < rev_id r1" by auto
    with br app Inr Some show ?thesis by (simp add: Revision_save_branch_def)
  qed
qed

lemma Revision_save_branch_older:
  assumes br: "Revision_save_branch s1 r1 d = Inr b"
    and older: "current_revision d = Some c" "rev_id r1 < Some c"
  shows "b \<noteq> Update_current"
proof (cases "is_approved r1")
  case False
  with br show ?thesis
    by (auto simp: Revision_save_branch_def split: if_splits sum.splits option.splits)
next
  case True
  from older(1) have "get_current_revision s1 d \<noteq> Inr None"
    by (auto dest: get_current_revision_None)
  moreover have "\<not> rev_id cc < rev_id r1" if "get_current_revision s1 d = Inr (Some cc)" for cc
    using get_current_revision_Some [OF that] older by auto
  ultimately show ?thesis using br True
    by (auto simp: Revision_save_branch_def split: if_splits sum.splits option.splits)
qed

text \<open>
  C1. A revision saved with \<open>is_approved\<close> set: when the document's \<open>current_revision\<close> is
  unset or has a smaller id than the saved revision, the save makes the revision the
  document's \<open>current_revision\<close>, sets \<open>html\<close> to the rendering of the revision's content
  and, when the revision is ready for localization, makes it the
  \<open>latest_localizable_revision\<close>, on the instance and on the stored row; when the
  document's \<open>current_revision\<close> has a greater id, \<open>current_revision\<close> and \<open>html\<close> are
  left as they were. The saved revision is the given one with its key, and with redirect
  templates that contain the number token the save returns once it is given a depth of
  four nested saves.
\<close>

theorem approved_revision_becomes_current:
  assumes run: "Revision_save n cfg s r d = Some (Inr (s', r', d'))" and app: "is_approved r"
  shows "r' = r\<lparr>rev_id := rev_id r'\<rparr> \<and> rev_id r' \<noteq> None \<and>
         (rev_id r \<noteq> None \<longrightarrow> rev_id r' = rev_id r) \<and>
         (current_revision d = None \<or> (\<exists>c. current_revision d = Some c \<and> Some c < rev_id r') \<longrightarrow>
            current_revision d' = rev_id r' \<and>
            html d' = wiki_to_html cfg (content r) (doc_locale d) (doc_id d) \<and>
            (is_ready_for_localization r \<longrightarrow> latest_localizable_revision d' = rev_id r') \<and>
            (\<forall>x \<in> set (documents s'). doc_id x = doc_id d \<longrightarrow>
               current_revision x = rev_id r' \<and> html x = html d' \<and>
               (is_ready_for_localization r \<longrightarrow> latest_localizable_revision x = rev_id r'))) \<and>
         ((\<exists>c. current_revision d = Some c \<and> rev_id r' < Some c) \<longrightarrow>
            current_revision d' = current_revision d \<and> html d' = html d) \<and>
         (Number \<in> set (REDIRECT_TITLE cfg) \<and> Number \<in> set (REDIRECT_SLUG cfg) \<longrightarrow>
            (\<forall>m. Revision_save (Suc (Suc (Suc (Suc m)))) cfg s r d \<noteq> None))"
proof -
  from Revision_save_Inr [OF run] obtain s1 b where row: "save_revision_row s r = (s1, r')"
    and br: "Revision_save_branch s1 r' d = Inr b"
    and out: "case b of
        Update_current \<Rightarrow>
          (\<exists>m k cur. doc_id d = Some k \<and>
             Document_save m cfg
               (s1\<lparr>contributors := contributors s1 \<union> (\<lambda>u. (k, u)) ` new_contributors s1 d cur\<rparr>)
               ((if is_ready_for_localization r' then d\<lparr>latest_localizable_revision := rev_id r'\<rparr> else d)
                  \<lparr>html := content_parsed cfg r'
                       (if is_ready_for_localization r' then d\<lparr>latest_localizable_revision := rev_id r'\<rparr> else d),
                   current_revision := rev_id r'\<rparr>) = Some (Inr (s', d')))
      | Update_localizable \<Rightarrow>
          (\<exists>m. Document_save m cfg s1 (d\<lparr>latest_localizable_revision := rev_id r'\<rparr>) = Some (Inr (s', d')))
      | No_update \<Rightarrow> s' = s1 \<and> d' = d"
    by blast
  note rf = save_revision_row_fields [OF row]
  from rf have r'eq: "r' = r\<lparr>rev_id := rev_id r'\<rparr>" by simp
  have same: "is_approved r' = is_approved r" "content r' = content r"
    "is_ready_for_localization r' = is_ready_for_localization r"
    by (subst r'eq, simp)+
  have p1: "r' = r\<lparr>rev_id := rev_id r'\<rparr> \<and> rev_id r' \<noteq> None \<and>
         (rev_id r \<noteq> None \<longrightarrow> rev_id r' = rev_id r)"
    using rf by simp
  have p2: "current_revision d = None \<or> (\<exists>c. current_revision d = Some c \<and> Some c < rev_id r') \<longrightarrow>
            current_revision d' = rev_id r' \<and>
            html d' = wiki_to_html cfg (content r) (doc_locale d) (doc_id d) \<and>
            (is_ready_for_localization r \<longrightarrow> latest_localizable_revision d' = rev_id r') \<and>
            (\<forall>x \<in> set (documents s'). doc_id x = doc_id d \<longrightarrow>
               current_revision x = rev_id r' \<and> html x = html d' \<and>
               (is_ready_for_localization r \<longrightarrow> latest_localizable_revision x = rev_id r'))"
  proof
    assume newer: "current_revision d = None \<or> (\<exists>c. current_revision d = Some c \<and> Some c < rev_id r')"
    from app same have app': "is_approved r'" by simp
    from Revision_save_branch_current [OF br app' newer] have b: "b = Update_current" .
    let ?d1 = "if is_ready_for_localization r' then d\<lparr>latest_localizable_revision := rev_id r'\<rparr> else d"
    let ?d3 = "?d1\<lparr>html := content_parsed cfg r' ?d1, current_revision := rev_id r'\<rparr>"
    from out b obtain m k s2 where k: "doc_id d = Some k"
      and inner: "Document_save m cfg s2 ?d3 = Some (Inr (s', d'))"
      by auto
    note f = Document_save_fields [OF inner]
    note own = Document_save_own_rows [OF inner]
    have d3: "current_revision ?d3 = rev_id r'"
      "html ?d3 = wiki_to_html cfg (content r) (doc_locale d) (doc_id d)"
      "is_ready_for_localization r \<longrightarrow> latest_localizable_revision ?d3 = rev_id r'"
      "doc_id ?d3 = doc_id d"
      by (simp_all add: content_parsed_def same)
    from f d3 k have d': "current_revision d' = rev_id r'"
      "html d' = wiki_to_html cfg (content r) (doc_locale d) (doc_id d)"
      "is_ready_for_localization r \<longrightarrow> latest_localizable_revision d' = rev_id r'"
      "doc_id d' = doc_id d"
      by simp_all
    have rows: "\<forall>x \<in> set (documents s'). doc_id x = doc_id d \<longrightarrow>
               current_revision x = rev_id r' \<and> html x = html d' \<and>
               (is_ready_for_localization r \<longrightarrow> latest_localizable_revision x = rev_id r')"
    proof (intro ballI impI)
      fix x assume "x \<in> set (documents s')" "doc_id x = doc_id d"
      with own d'(4) have "x = stored d'" by simp
      with d' show "current_revision x = rev_id r' \<and> html x = html d' \<and>
               (is_ready_for_localization r \<longrightarrow> latest_localizable_revision x = rev_id r')"
        by (simp add: stored_def)
    qed
    from d' rows show "current_revision d' = rev_id r' \<and>
            html d' = wiki_to_html cfg (content r) (doc_locale d) (doc_id d) \<and>
            (is_ready_for_localization r \<longrightarrow> latest_localizable_revision d' = rev_id r') \<and>
            (\<forall>x \<in> set (documents s'). doc_id x = doc_id d \<longrightarrow>
               current_revision x = rev_id r' \<and> html x = html d' \<and>
               (is_ready_for_localization r \<longrightarrow> latest_localizable_revision x = rev_id r'))"
      by simp
  qed
  have p3: "(\<exists>c. current_revision d = Some c \<and> rev_id r' < Some c) \<longrightarrow>
            current_revision d' = current_revision d \<and> html d' = html d"
  proof
    assume "\<exists>c. current_revision d = Some c \<and> rev_id r' < Some c"
    then obtain c where c: "current_revision d = Some c" "rev_id r' < Some c" by blast
    from Revision_save_branch_older [OF br c] have nb: "b \<noteq> Update_current" .
    show "current_revision d' = current_revision d \<and> html d' = html d"
    proof (cases b)
      case Update_current
      with nb show ?thesis by simp
    next
      case Update_localizable
      with out obtain m where inner:
        "Document_save m cfg s1 (d\<lparr>latest_localizable_revision := rev_id r'\<rparr>) = Some (Inr (s', d'))"
        by auto
      from Document_save_fields [OF inner] show ?thesis by simp
    next
      case No_update
      with out show ?thesis by simp
    qed
  qed
  have p4: "Number \<in> set (REDIRECT_TITLE cfg) \<and> Number \<in> set (REDIRECT_SLUG cfg) \<longrightarrow>
            (\<forall>m. Revision_save (Suc (Suc (Suc (Suc m)))) cfg s r d \<noteq> None)"
    using Revision_save_returns by blast
  show ?thesis
    by (rule conjI [OF p1 [THEN conjunct1] conjI [OF p1 [THEN conjunct2, THEN conjunct1]
        conjI [OF p1 [THEN conjunct2, THEN conjunct2] conjI [OF p2 conjI [OF p3 p4]]]]])
qed

lemma ex_approve_run:
  "Revision_save (Suc (Suc 0)) ex_cfg ex_db ex_R5 ex_A = Some (Inr (ex_db5, ex_R5\<lparr>rev_id := Some 4\<rparr>, ex_A5))"
proof -
  let ?r1 = "ex_R5\<lparr>rev_id := Some 4\<rparr>"
  let ?s1 = "ex_db\<lparr>revisions := [ex_R1, ex_R2, ex_R3, ?r1]\<rparr>"
  let ?s2 = "?s1\<lparr>contributors := {(1, 7), (2, 8), (1, 9)}\<rparr>"
  have clean: "based_on_is_clean ex_db ex_R5 ex_A = Inr (None, True)"
    by (simp add: based_on_is_clean_def original_def get_parent_def ex_R5_def ex_defs)
  have row: "save_revision_row ex_db ex_R5 = (?s1, ?r1)"
    by (simp add: save_revision_row_def next_rev_id_def key_of_def Let_def ex_R5_def ex_defs)
  have gc: "get_current_revision ?s1 ex_A = Inr (Some ex_R1)"
    by (simp add: get_current_revision_def get_revision_def ex_defs)
  have br: "Revision_save_branch ?s1 ?r1 ex_A = Inr Update_current"
    by (simp add: Revision_save_branch_def gc) (simp add: ex_R5_def ex_defs)
  have k: "doc_id ex_A = Some 1"
    by (simp add: ex_defs)
  have nc: "new_contributors ?s1 ex_A (Some ex_R1) = {9}"
  proof -
    have "map creator (filter (\<lambda>x. rev_id ex_R1 < rev_id x)
            (filter (\<lambda>x. \<not> rejected x) (revisions_of ?s1 (doc_id ex_A)))) = [9, 9]"
      by (simp add: revisions_of_def rejected_def ex_R5_def ex_defs)
    then show ?thesis
      unfolding new_contributors_def Let_def option.case by (simp only: list.set insert_absorb2)
  qed
  have s2: "?s1\<lparr>contributors := contributors ?s1 \<union> (\<lambda>u. (1, u)) ` {9}\<rparr> = ?s2"
    by (auto simp: ex_defs)
  have rdy: "is_ready_for_localization ?r1" "rev_id ?r1 = Some 4"
    by (simp_all add: ex_R5_def)
  have d3: "ex_A\<lparr>latest_localizable_revision := Some 4\<rparr>
      \<lparr>html := content_parsed ex_cfg ?r1 (ex_A\<lparr>latest_localizable_revision := Some 4\<rparr>)\<rparr>
      \<lparr>current_revision := Some 4\<rparr> = ex_A5"
    by (simp add: content_parsed_def ex_A5_def ex_R5_def ex_defs)
  have old: "old_slug ex_A5 = None" "old_title ex_A5 = None"
    by (simp_all add: ex_A5_def ex_defs)
  have drow: "Document_save_row ex_cfg ?s2 ex_A5 = Inr (ex_db5, ex_A5)"
    by (simp add: save_row_defs ex_db5_def ex_A5_def ex_defs)
  have gc5: "get_current_revision ex_db5 ex_A5 = Inr (Some ?r1)"
    by (simp add: get_current_revision_def get_revision_def ex_db5_def ex_A5_def ex_R5_def ex_defs)
  have ds: "Document_save (Suc 0) ex_cfg ?s2 ex_A5 = Some (Inr (ex_db5, ex_A5))"
    unfolding Document_save_unrenamed [OF old]
    by (simp only: drow gc5 sum.case split_conv option.case)
  show ?thesis
    by (simp only: Revision_save.simps clean row br gc k nc s2 rdy d3 ds
        sum.case split_conv option.case save_branch.case simp_thms if_True if_False Let_def)
qed

lemma ex_stale_run:
  "Revision_save (Suc 0) ex_cfg ex_db3 ex_R1 ex_A3 = Some (Inr (ex_db3, ex_R1, ex_A3))"
proof -
  have clean: "based_on_is_clean ex_db3 ex_R1 ex_A3 = Inr (None, True)"
    by (simp add: based_on_is_clean_def original_def get_parent_def ex_A3_def ex_db3_def ex_defs)
  have row: "save_revision_row ex_db3 ex_R1 = (ex_db3, ex_R1)"
    by (simp add: save_revision_row_def key_of_def ex_db3_def ex_defs)
  have br: "Revision_save_branch ex_db3 ex_R1 ex_A3 = Inr No_update"
    by (simp add: Revision_save_branch_def get_current_revision_def get_revision_def
        get_latest_localizable_revision_def ex_A3_def ex_db3_def ex_defs)
  show ?thesis
    by (simp only: Revision_save.simps clean row br
        sum.case split_conv option.case save_branch.case simp_thms if_True if_False Let_def)
qed

theorem approved_revision_becomes_current_witness:
  "Revision_save (Suc (Suc 0)) ex_cfg ex_db ex_R5 ex_A = Some (Inr (ex_db5, ex_R5\<lparr>rev_id := Some 4\<rparr>, ex_A5)) \<and>
   is_approved ex_R5 \<and> current_revision ex_A = Some 1 \<and>
   current_revision ex_A5 = Some 4 \<and> html ex_A5 = ''<p>five</p>'' \<and>
   latest_localizable_revision ex_A5 = Some 4 \<and>
   Revision_save (Suc 0) ex_cfg ex_db3 ex_R1 ex_A3 = Some (Inr (ex_db3, ex_R1, ex_A3)) \<and>
   is_approved ex_R1 \<and> current_revision ex_A3 = Some 3 \<and> html ex_A3 = ''<p>three</p>''"
proof -
  have app: "is_approved ex_R5" "is_approved ex_R1"
    by (simp_all add: ex_R5_def ex_defs)
  have cur: "current_revision ex_A = Some 1" "current_revision ex_A3 = Some 3"
    "html ex_A3 = ''<p>three</p>''"
    by (simp_all add: ex_A3_def ex_defs)
  have newer: "current_revision ex_A = None \<or>
      (\<exists>c. current_revision ex_A = Some c \<and> Some c < rev_id (ex_R5\<lparr>rev_id := Some 4\<rparr>))"
    by (simp add: ex_defs)
  have rdy: "is_ready_for_localization ex_R5"
    by (simp add: ex_R5_def)
  have render: "wiki_to_html ex_cfg (content ex_R5) (doc_locale ex_A) (doc_id ex_A) = ''<p>five</p>''"
    by (simp add: ex_R5_def ex_defs)
  note spec = approved_revision_becomes_current [OF ex_approve_run app(1)]
  from spec newer rdy have "current_revision ex_A5 = rev_id (ex_R5\<lparr>rev_id := Some 4\<rparr>) \<and>
      html ex_A5 = wiki_to_html ex_cfg (content ex_R5) (doc_locale ex_A) (doc_id ex_A) \<and>
      latest_localizable_revision ex_A5 = rev_id (ex_R5\<lparr>rev_id := Some 4\<rparr>)"
    by blast
  with render have a: "current_revision ex_A5 = Some 4 \<and> html ex_A5 = ''<p>five</p>'' \<and>
      latest_localizable_revision ex_A5 = Some 4"
    by simp
  from ex_approve_run app cur a ex_stale_run show ?thesis by blast
qed

subsection \<open>Category and archived flag of a translation\<close>

lemma find_replace_row:
  assumes "doc_id e = Some k"
  shows "find (\<lambda>x. doc_id x = Some p) (map (\<lambda>x. if doc_id x = Some k then e else x) xs) =
         (if p = k then map_option (\<lambda>_. e) (find (\<lambda>x. doc_id x = Some k) xs)
          else find (\<lambda>x. doc_id x = Some p) xs)"
  using assms by (induction xs) auto

lemma find_append_found:
  "find P xs = Some x \<Longrightarrow> find P (xs @ ys) = Some x"
  by (induction xs) (auto split: if_splits)

lemma get_document_append:
  assumes "get_document s p = Inr P" and "documents s' = documents s @ ys"
  shows "get_document s' p = Inr P"
  using assms find_append_found [of "\<lambda>x. doc_id x = Some p" "documents s" P ys]
  by (auto simp: get_document_def split: option.splits)

lemma save_document_row_inherited:
  assumes "save_document_row s d = (s', d')"
  shows "category d' = category d \<and> is_archived d' = is_archived d"
  using assms by (auto simp: save_document_row_def Let_def split: option.splits if_splits)

lemma save_document_row_lookup:
  assumes row: "save_document_row s d = (s', d')" and get: "get_document s p = Inr P"
  shows "get_document s' p = Inr (if doc_id d' = Some p then stored d' else P)"
proof -
  from get have fnd: "find (\<lambda>x. doc_id x = Some p) (documents s) = Some P"
    by (auto simp: get_document_def split: option.splits)
  from get_document_Inr [OF get] have P: "doc_id P = Some p" "P \<in> set (documents s)"
    by simp_all
  show ?thesis
  proof (cases "doc_id d")
    case None
    with row have d': "d' = d\<lparr>doc_id := Some (next_doc_id s)\<rparr>"
      and s': "documents s' = documents s @ [stored d']"
      by (auto simp: save_document_row_def Let_def)
    from next_doc_id_fresh [OF P(2)] P(1) have "doc_id d' \<noteq> Some p"
      by (auto simp: d')
    with get_document_append [OF get s'] show ?thesis by simp
  next
    case (Some k)
    show ?thesis
    proof (cases "\<exists>x \<in> set (documents s). doc_id x = Some k")
      case True
      with row Some have d': "d' = d"
        and s': "documents s' = map (\<lambda>x. if doc_id x = Some k then stored d else x) (documents s)"
        by (auto simp: save_document_row_def)
      have e: "doc_id (stored d) = Some k" by (simp add: stored_def Some)
      show ?thesis
        unfolding get_document_def s' find_replace_row [OF e]
        using fnd Some by (auto simp: d')
    next
      case False
      with row Some have d': "d' = d" and s': "documents s' = documents s @ [stored d]"
        by (auto simp: save_document_row_def)
      from False P have "k \<noteq> p" by auto
      with get_document_append [OF get s'] Some show ?thesis by (simp add: d')
    qed
  qed
qed

lemma clean_is_localizable_inherited:
  assumes "clean_is_localizable cfg s d = Inr d1"
  shows "category d1 = category d \<and> is_archived d1 = is_archived d"
  using assms by (auto simp: clean_is_localizable_def Let_def split: sum.splits if_splits)

lemma Document_save_row_translation:
  assumes row: "Document_save_row cfg s d = Inr (s3, d4)" and par: "parent d = Some p"
  shows "\<exists>P d3. get_document s p = Inr P \<and> save_document_row s d3 = (s3, d4) \<and>
           category d3 = category P \<and> is_archived d3 = is_archived P \<and> parent d3 = Some p"
proof -
  from row obtain d1 s1 d2 s2 d3 where
    loc: "clean_is_localizable cfg s (d\<lparr>is_template := startswith (title d) (TEMPLATE_TITLE_PREFIX cfg)\<rparr>) = Inr d1"
    and arch: "ensure_inherited_attr s d1 Is_archived = Inr (s1, d2)"
    and cat: "clean_category cfg s1 d2 = Inr (s2, d3)"
    and sv: "save_document_row s2 d3 = (s3, d4)"
    by (rule Document_save_row_steps)
  from clean_is_localizable_fields [OF loc] par have p1: "parent d1 = Some p" by simp
  from arch p1 obtain P where P: "get_document s p = Inr P"
    and a: "s1 = s" "d2 = d1\<lparr>is_archived := is_archived P\<rparr>"
    by (auto simp: ensure_inherited_attr_def get_parent_def split: sum.splits)
  from cat a P p1 have c: "s2 = s" "d3 = d2\<lparr>category := category P\<rparr>"
    by (auto simp: clean_category_def ensure_inherited_attr_def get_parent_def split: if_splits)
  from a c p1 have "category d3 = category P \<and> is_archived d3 = is_archived P \<and> parent d3 = Some p"
    by simp
  with P sv c(1) show ?thesis by blast
qed

lemma Document_save_row_root:
  assumes row: "Document_save_row cfg s d = Inr (s3, d4)" and root: "parent d = None"
    and key: "truthy (doc_id d)"
  shows "category d4 = category d \<and> is_archived d4 = is_archived d \<and> doc_id d4 = doc_id d \<and>
         parent d4 = None \<and>
         (\<forall>x \<in> set (documents s3). parent x = doc_id d \<longrightarrow>
            category x = category d \<and> is_archived x = is_archived d)"
proof -
  from row obtain d1 s1 d2 s2 d3 where
    loc: "clean_is_localizable cfg s (d\<lparr>is_template := startswith (title d) (TEMPLATE_TITLE_PREFIX cfg)\<rparr>) = Inr d1"
    and arch: "ensure_inherited_attr s d1 Is_archived = Inr (s1, d2)"
    and cat: "clean_category cfg s1 d2 = Inr (s2, d3)"
    and sv: "save_document_row s2 d3 = (s3, d4)"
    by (rule Document_save_row_steps)
  from key obtain k where k: "doc_id d = Some k" "k \<noteq> 0"
    by (auto simp: truthy_def split: option.splits)
  from clean_is_localizable_fields [OF loc] clean_is_localizable_inherited [OF loc] root k
  have d1: "parent d1 = None" "doc_id d1 = Some k" "category d1 = category d" "is_archived d1 = is_archived d"
    by simp_all
  let ?f1 = "\<lambda>x. if parent x = Some k then inherit Is_archived d1 x else x"
  let ?f2 = "\<lambda>x. if parent x = Some k then inherit Category d1 x else x"
  from arch d1 k have a: "d2 = d1" "documents s1 = map ?f1 (documents s)"
    by (auto simp: ensure_inherited_attr_def get_parent_def truthy_def)
  from cat a d1 k have c: "d3 = d1" "documents s2 = map ?f2 (documents s1)"
    by (auto simp: clean_category_def ensure_inherited_attr_def get_parent_def truthy_def split: if_splits)
  have rows2: "category x = category d \<and> is_archived x = is_archived d"
    if "x \<in> set (documents s2)" "parent x = Some k" for x
  proof -
    from that(1) have "x \<in> (\<lambda>x0. ?f2 (?f1 x0)) ` set (documents s)"
      by (simp only: c a set_map image_image)
    then obtain x0 where x0: "x = ?f2 (?f1 x0)" by (rule imageE)
    have "parent (?f2 (?f1 x0)) = parent x0" by (simp add: inherit_fields)
    with that(2) x0 have "parent x0 = Some k" by simp
    with x0 d1 show ?thesis by simp
  qed
  from sv c d1 have d4: "d4 = d1"
    and s3: "\<forall>x \<in> set (documents s3). x = stored d1 \<or> x \<in> set (documents s2)"
    by (auto simp: save_document_row_def split: if_splits)
  have rows3: "category x = category d \<and> is_archived x = is_archived d"
    if "x \<in> set (documents s3)" "parent x = Some k" for x
  proof -
    from that(2) d1 have "x \<noteq> stored d1" by (auto simp: stored_def)
    with s3 that(1) have "x \<in> set (documents s2)" by blast
    from rows2 [OF this that(2)] show ?thesis .
  qed
  from d4 d1 k rows3 show ?thesis by simp
qed

lemma Document_save_translation:
  assumes run: "Document_save n cfg s d = Some (Inr (s', d'))" and par: "parent d = Some p"
  shows "\<exists>P P'. get_document s p = Inr P \<and> get_document s' p = Inr P' \<and>
           category P' = category P \<and> is_archived P' = is_archived P \<and>
           category d' = category P \<and> is_archived d' = is_archived P \<and>
           (\<forall>x \<in> set (documents s'). doc_id x = doc_id d' \<longrightarrow>
              parent x = Some p \<and> category x = category P' \<and> is_archived x = is_archived P')"
proof -
  from Document_save_Inr [OF run] obtain s3 d4 where
    row: "Document_save_row cfg s d = Inr (s3, d4)"
    and alt: "(s' = s3 \<and> d' = d4) \<or>
         ((\<exists>x. documents s' = documents s3 @ [x]) \<and> d' = d4\<lparr>old_slug := None, old_title := None\<rparr>)"
    by blast
  from Document_save_row_translation [OF row par] obtain P d3 where
    P: "get_document s p = Inr P" and sv: "save_document_row s d3 = (s3, d4)"
    and d3: "category d3 = category P" "is_archived d3 = is_archived P"
    by blast
  let ?P3 = "if doc_id d4 = Some p then stored d4 else P"
  note g3 = save_document_row_lookup [OF sv P]
  from save_document_row_inherited [OF sv] d3
  have d4: "category d4 = category P" "is_archived d4 = is_archived P"
    by simp_all
  then have P3: "category ?P3 = category P" "is_archived ?P3 = is_archived P"
    by (simp_all add: stored_def)
  from alt have d': "category d' = category P" "is_archived d' = is_archived P"
    using d4 by auto
  from alt have g': "get_document s' p = Inr ?P3"
  proof
    assume "s' = s3 \<and> d' = d4"
    with g3 show ?thesis by simp
  next
    assume "(\<exists>x. documents s' = documents s3 @ [x]) \<and> d' = d4\<lparr>old_slug := None, old_title := None\<rparr>"
    then obtain x where "documents s' = documents s3 @ [x]" by blast
    from get_document_append [OF g3 this] show ?thesis .
  qed
  from Document_save_fields [OF run] par have pd': "parent d' = Some p" by simp
  have own: "\<forall>x \<in> set (documents s'). doc_id x = doc_id d' \<longrightarrow>
              parent x = Some p \<and> category x = category ?P3 \<and> is_archived x = is_archived ?P3"
  proof (intro ballI impI)
    fix x assume "x \<in> set (documents s')" "doc_id x = doc_id d'"
    with Document_save_own_rows [OF run] have "x = stored d'" by simp
    with pd' d' P3 show "parent x = Some p \<and> category x = category ?P3 \<and> is_archived x = is_archived ?P3"
      by (simp add: stored_def)
  qed
  from P g' P3 d' own show ?thesis by blast
qed

lemma Document_save_root:
  assumes run: "Document_save n cfg s d = Some (Inr (s', d'))" and root: "parent d = None"
    and key: "truthy (doc_id d)"
  shows "category d' = category d \<and> is_archived d' = is_archived d \<and>
         (\<forall>x \<in> set (documents s'). doc_id x = doc_id d' \<or> parent x = doc_id d' \<longrightarrow>
            category x = category d \<and> is_archived x = is_archived d)"
proof -
  from Document_save_Inr [OF run] obtain s3 d4 where
    row: "Document_save_row cfg s d = Inr (s3, d4)"
    and alt: "(s' = s3 \<and> d' = d4) \<or>
         ((\<exists>x. documents s' = documents s3 @ [x] \<and> parent x = None) \<and>
          d' = d4\<lparr>old_slug := None, old_title := None\<rparr>)"
    by blast
  note r = Document_save_row_root [OF row root key]
  from key have kn: "doc_id d \<noteq> None" by (auto simp: truthy_def split: option.splits)
  from alt r have d': "category d' = category d" "is_archived d' = is_archived d" "doc_id d' = doc_id d"
    by auto
  have rows: "category x = category d \<and> is_archived x = is_archived d"
    if x: "x \<in> set (documents s')" and px: "parent x = doc_id d" for x
  proof -
    from alt x px kn have "x \<in> set (documents s3)" by auto
    with r px show ?thesis by blast
  qed
  have all: "\<forall>x \<in> set (documents s'). doc_id x = doc_id d' \<or> parent x = doc_id d' \<longrightarrow>
            category x = category d \<and> is_archived x = is_archived d"
  proof (intro ballI impI)
    fix x assume x: "x \<in> set (documents s')" and dj: "doc_id x = doc_id d' \<or> parent x = doc_id d'"
    from dj show "category x = category d \<and> is_archived x = is_archived d"
    proof
      assume "doc_id x = doc_id d'"
      with Document_save_own_rows [OF run] x have "x = stored d'" by simp
      with d' show ?thesis by (simp add: stored_def)
    next
      assume "parent x = doc_id d'"
      with d' have "parent x = doc_id d" by simp
      from rows [OF x this] show ?thesis .
    qed
  qed
  from d' all show ?thesis by simp
qed

text \<open>
  C6. A save of a document D that has a parent P overwrites the category and the archived
  flag of D, on the instance and on its stored row, with those of P's row, which keeps
  them. A save of a root document that has a key keeps its own category and archived flag
  and writes them into the row of each of its direct translations, so that after either
  save the translation's row and the parent's row agree on both attributes. With redirect
  templates that contain the number token the save returns once it is given a depth of
  three nested saves.
\<close>

theorem inherited_attrs_after_save:
  assumes run: "Document_save n cfg s d = Some (Inr (s', d'))"
  shows "(\<forall>p. parent d = Some p \<longrightarrow>
            (\<exists>P P'. get_document s p = Inr P \<and> get_document s' p = Inr P' \<and>
               category P' = category P \<and> is_archived P' = is_archived P \<and>
               category d' = category P \<and> is_archived d' = is_archived P \<and>
               (\<forall>x \<in> set (documents s'). doc_id x = doc_id d' \<longrightarrow>
                  parent x = Some p \<and> category x = category P' \<and> is_archived x = is_archived P'))) \<and>
         (parent d = None \<and> truthy (doc_id d) \<longrightarrow>
            category d' = category d \<and> is_archived d' = is_archived d \<and>
            (\<forall>x \<in> set (documents s'). doc_id x = doc_id d' \<or> parent x = doc_id d' \<longrightarrow>
               category x = category d \<and> is_archived x = is_archived d)) \<and>
         (Number \<in> set (REDIRECT_TITLE cfg) \<and> Number \<in> set (REDIRECT_SLUG cfg) \<longrightarrow>
            (\<forall>m. Document_save (Suc (Suc (Suc m))) cfg s d \<noteq> None))"
proof -
  have a: "\<forall>p. parent d = Some p \<longrightarrow>
            (\<exists>P P'. get_document s p = Inr P \<and> get_document s' p = Inr P' \<and>
               category P' = category P \<and> is_archived P' = is_archived P \<and>
               category d' = category P \<and> is_archived d' = is_archived P \<and>
               (\<forall>x \<in> set (documents s'). doc_id x = doc_id d' \<longrightarrow>
                  parent x = Some p \<and> category x = category P' \<and> is_archived x = is_archived P'))"
    using Document_save_translation [OF run] by blast
  have b: "parent d = None \<and> truthy (doc_id d) \<longrightarrow>
            category d' = category d \<and> is_archived d' = is_archived d \<and>
            (\<forall>x \<in> set (documents s'). doc_id x = doc_id d' \<or> parent x = doc_id d' \<longrightarrow>
               category x = category d \<and> is_archived x = is_archived d)"
    using Document_save_root [OF run] by blast
  have c: "Number \<in> set (REDIRECT_TITLE cfg) \<and> Number \<in> set (REDIRECT_SLUG cfg) \<longrightarrow>
            (\<forall>m. Document_save (Suc (Suc (Suc m))) cfg s d \<noteq> None)"
    using Document_save_returns by blast
  show ?thesis by (rule conjI [OF a conjI [OF b c]])
qed

lemma ex_translation_run:
  "Document_save (Suc 0) ex_cfg ex_db ex_B_edited = Some (Inr (ex_db, ex_B))"
proof -
  have old: "old_slug ex_B_edited = None" "old_title ex_B_edited = None"
    by (simp_all add: ex_B_edited_def ex_defs)
  have row: "Document_save_row ex_cfg ex_db ex_B_edited = Inr (ex_db, ex_B)"
    by (simp add: save_row_defs ex_B_edited_def ex_defs)
  have gc: "get_current_revision ex_db ex_B = Inr (Some ex_R2)"
    by (simp add: get_current_revision_def get_revision_def ex_defs)
  show ?thesis
    unfolding Document_save_unrenamed [OF old]
    by (simp only: row gc sum.case split_conv option.case)
qed

lemma ex_archive_run:
  "Document_save (Suc 0) ex_cfg ex_db ex_A_archived = Some (Inr (ex_db_archived, ex_A_archived))"
proof -
  have old: "old_slug ex_A_archived = None" "old_title ex_A_archived = None"
    by (simp_all add: ex_A_archived_def ex_defs)
  have row: "Document_save_row ex_cfg ex_db ex_A_archived = Inr (ex_db_archived, ex_A_archived)"
    by (simp add: save_row_defs ex_db_archived_def ex_A_archived_def ex_B_archived_def ex_defs)
  have gc: "get_current_revision ex_db_archived ex_A_archived = Inr (Some ex_R1)"
    by (simp add: get_current_revision_def get_revision_def ex_db_archived_def ex_A_archived_def ex_defs)
  show ?thesis
    unfolding Document_save_unrenamed [OF old]
    by (simp only: row gc sum.case split_conv option.case)
qed

theorem inherited_attrs_after_save_witness:
  "Document_save (Suc 0) ex_cfg ex_db ex_B_edited = Some (Inr (ex_db, ex_B)) \<and>
   parent ex_B_edited = Some 1 \<and> get_document ex_db 1 = Inr ex_A \<and>
   category ex_B_edited = 20 \<and> category ex_A = 10 \<and>
   category ex_B = category ex_A \<and> is_archived ex_B = is_archived ex_A \<and>
   Document_save (Suc 0) ex_cfg ex_db ex_A_archived = Some (Inr (ex_db_archived, ex_A_archived)) \<and>
   parent ex_A_archived = None \<and> documents ex_db_archived = [ex_A_archived, ex_B_archived] \<and>
   parent ex_B_archived = doc_id ex_A_archived \<and> is_archived ex_A_archived \<and>
   category ex_B_archived = category ex_A_archived \<and>
   is_archived ex_B_archived = is_archived ex_A_archived"
proof -
  have par: "parent ex_B_edited = Some 1" "category ex_B_edited = 20" "category ex_A = 10"
    by (simp_all add: ex_B_edited_def ex_defs)
  have get: "get_document ex_db 1 = Inr ex_A"
    by (simp add: get_document_def ex_defs)
  from inherited_attrs_after_save [OF ex_translation_run] par(1)
  obtain P where "get_document ex_db 1 = Inr P" "category ex_B = category P"
    "is_archived ex_B = is_archived P"
    by blast
  with get have a: "category ex_B = category ex_A" "is_archived ex_B = is_archived ex_A"
    by simp_all
  have root: "parent ex_A_archived = None" "truthy (doc_id ex_A_archived)"
    "is_archived ex_A_archived"
    by (simp_all add: ex_A_archived_def truthy_def ex_defs)
  have docs: "documents ex_db_archived = [ex_A_archived, ex_B_archived]"
    by (simp add: ex_db_archived_def)
  have child: "parent ex_B_archived = doc_id ex_A_archived"
    by (simp add: ex_A_archived_def ex_B_archived_def ex_defs)
  have mem: "ex_B_archived \<in> set (documents ex_db_archived)"
    by (simp add: docs)
  from inherited_attrs_after_save [OF ex_archive_run] root(1,2)
  have "\<forall>x \<in> set (documents ex_db_archived).
      doc_id x = doc_id ex_A_archived \<or> parent x = doc_id ex_A_archived \<longrightarrow>
      category x = category ex_A_archived \<and> is_archived x = is_archived ex_A_archived"
    by blast
  with mem child have b: "category ex_B_archived = category ex_A_archived"
    "is_archived ex_B_archived = is_archived ex_A_archived"
    by blast+
  from ex_translation_run par get a ex_archive_run root(1,3) docs child b show ?thesis
    by blast
qed

end
